theory Spec2Isabelle
  imports Complex_Main "HOL-Library.Multiset" "HOL-Library.AList"
begin

section \<open>Conflict detection (calendar.service.ts, detectConflicts)\<close>

text \<open>
  Instants are the millisecond counts that \<open>Date.getTime()\<close> returns, modelled as
  integers.  A \<open>CalendarEvent\<close> is the interface of the shared types; the field
  \<open>id\<close> is called \<open>evId\<close> and \<open>type\<close> is called \<open>evType\<close>, since the plain
  names are taken in HOL.
\<close>

datatype BlockType = booked | blocked | maintenance | hold

record CalendarEvent =
  evId :: string
  unitId :: string
  propertyId :: string
  evType :: BlockType
  channel :: "string option"
  guestName :: "string option"
  checkIn :: int
  checkOut :: int
  externalId :: "string option"
  hasConflict :: bool

record ConflictInfo =
  eventA :: CalendarEvent
  eventB :: CalendarEvent
  overlapStart :: int
  overlapEnd :: int

text \<open>
  The JavaScript \<open>Map\<close> from unit id to the array of that unit's events keeps its keys
  in insertion order: an association list, where \<open>AList.update\<close> appends a new key at
  the end and \<open>AList.map_entry\<close> changes the array stored under a key.
\<close>

type_synonym unitMap = "(string \<times> CalendarEvent list) list"

definition groupStep :: "unitMap \<Rightarrow> CalendarEvent \<Rightarrow> unitMap" where
  "groupStep m event =
     (let m1 = (if map_of m (unitId event) = None
                then AList.update (unitId event) [] m else m)
      in AList.map_entry (unitId event) (\<lambda>es. es @ [event]) m1)"

definition eventsByUnit :: "CalendarEvent list \<Rightarrow> unitMap" where
  "eventsByUnit events = foldl groupStep [] events"

text \<open>The inner loop over \<open>j > i\<close>: \<open>a\<close> is \<open>unitEvents[i]\<close>, the list the events after it.\<close>

fun overlapsWith :: "CalendarEvent \<Rightarrow> CalendarEvent list \<Rightarrow> ConflictInfo list" where
  "overlapsWith a [] = []"
| "overlapsWith a (b # bs) =
     (if checkIn a < checkOut b \<and> checkIn b < checkOut a
      then [\<lparr>eventA = a, eventB = b,
             overlapStart = max (checkIn a) (checkIn b),
             overlapEnd = min (checkOut a) (checkOut b)\<rparr>]
      else []) @ overlapsWith a bs"

text \<open>The outer loop over \<open>i\<close>.\<close>

fun unitConflicts :: "CalendarEvent list \<Rightarrow> ConflictInfo list" where
  "unitConflicts [] = []"
| "unitConflicts (a # rest) = overlapsWith a rest @ unitConflicts rest"

text \<open>
  \<open>Array.prototype.sort\<close> with the comparator \<open>a.checkIn - b.checkIn\<close> is a stable
  sort by check-in, which is what \<open>sort_key\<close> is.
\<close>

definition detectConflicts :: "CalendarEvent list \<Rightarrow> ConflictInfo list" where
  "detectConflicts events =
     concat (map (\<lambda>(u, unitEvents). unitConflicts (sort_key checkIn unitEvents))
                 (eventsByUnit events))"

text \<open>
  The reference the detector is compared with: every pair of positions \<open>i < j\<close> of a
  list, and the unordered form of a reported pair (the two events as a multiset, with
  the reported sub-interval).
\<close>

fun pairs :: "'a list \<Rightarrow> ('a \<times> 'a) list" where
  "pairs [] = []"
| "pairs (x # xs) = map (Pair x) xs @ pairs xs"

definition overlaps :: "CalendarEvent \<times> CalendarEvent \<Rightarrow> bool" where
  "overlaps p = (checkIn (fst p) < checkOut (snd p) \<and> checkIn (snd p) < checkOut (fst p))"

definition sameUnit :: "CalendarEvent \<times> CalendarEvent \<Rightarrow> bool" where
  "sameUnit p = (unitId (fst p) = unitId (snd p))"

definition intersection :: "CalendarEvent \<times> CalendarEvent \<Rightarrow> CalendarEvent multiset \<times> int \<times> int" where
  "intersection p =
     ({#fst p, snd p#}, max (checkIn (fst p)) (checkIn (snd p)),
      min (checkOut (fst p)) (checkOut (snd p)))"

definition unordered :: "ConflictInfo \<Rightarrow> CalendarEvent multiset \<times> int \<times> int" where
  "unordered c = ({#eventA c, eventB c#}, overlapStart c, overlapEnd c)"


text \<open>
  Auxiliary notions of the proof: the events of one unit, in input order; what the
  double loop reports on a list, as a multiset of unordered pairs; and the part of it
  that pairs one event with a collection of later ones.
\<close>

definition unitEventsOf :: "string \<Rightarrow> CalendarEvent list \<Rightarrow> CalendarEvent list" where
  "unitEventsOf u xs = filter (\<lambda>e. unitId e = u) xs"

definition reported :: "CalendarEvent list \<Rightarrow> (CalendarEvent multiset \<times> int \<times> int) multiset" where
  "reported xs = image_mset intersection (filter_mset overlaps (mset (pairs xs)))"

definition reportedWith ::
  "CalendarEvent \<Rightarrow> CalendarEvent multiset \<Rightarrow> (CalendarEvent multiset \<times> int \<times> int) multiset" where
  "reportedWith x M = image_mset intersection (filter_mset overlaps (image_mset (Pair x) M))"

section \<open>The persistence store\<close>

text \<open>
  The package \<open>@unifiedstay/database\<close> (the Prisma schema and client behind \<open>db\<close>) is
  not part of the sources.  The rows below carry the columns the calendar code reads
  and writes; row fields are prefixed (\<open>rCheckIn\<close> for \<open>reservation.checkIn\<close>) so
  that they do not clash with the fields of \<open>CalendarEvent\<close>.
\<close>

datatype ReservationStatus = confirmed | pending | cancelled | completed

record Reservation =
  rId :: string
  rUnitId :: string
  rChannel :: string
  rGuestName :: string
  rCheckIn :: int
  rCheckOut :: int
  rStatus :: ReservationStatus
  rExternalId :: "string option"
  rTotalAmount :: "real option"

record AvailabilityBlock =
  bId :: string
  bUnitId :: string
  bType :: BlockType
  bStartDate :: int
  bEndDate :: int
  bNotes :: "string option"

record SyncLog =
  slChannelMappingId :: string
  slStatus :: string
  slEventsFound :: "nat option"
  slEventsCreated :: "nat option"
  slEventsUpdated :: "nat option"
  slError :: "string option"
  slCompletedAt :: int

record ChannelMapping =
  cmId :: string
  cmPropertyId :: string
  cmChannel :: string
  cmICalUrl :: "string option"
  cmLastSyncAt :: "int option"
  cmLastSyncError :: "string option"

record Property =
  pId :: string
  pUserId :: string
  pName :: string

record Unit =
  uId :: string
  uPropertyId :: string

text \<open>
  The database, together with the two things the code draws from its environment while
  it writes: the instant \<open>new Date()\<close> returns (\<open>clock\<close>) and the primary keys
  Prisma generates for new rows (\<open>idGen\<close> applied to a running counter).
\<close>

record Db =
  reservations :: "Reservation list"
  availabilityBlocks :: "AvailabilityBlock list"
  syncLogs :: "SyncLog list"
  channelMappings :: "ChannelMapping list"
  properties :: "Property list"
  units :: "Unit list"
  clock :: int
  idCounter :: nat
  idGen :: "nat \<Rightarrow> string"

text \<open>
  Modelled from the spec: the store operations of the absent database package
  (``create/find-by-key/update operations for Reservation'', ``append-only write for
  SyncLog''), as operations on tables held in row order.  The operations are total: a
  database call that rejects (a lost connection, a violated constraint) is not part of
  this store; the scheduler below is verified against collaborators that may reject.
  \<open>reservation_findFirst\<close> is \<open>db.reservation.findFirst\<close> with the filter
  \<open>{channel, externalId}\<close>: the first row carrying both.
\<close>

definition reservation_findFirst :: "Db \<Rightarrow> string \<Rightarrow> string \<Rightarrow> Reservation option" where
  "reservation_findFirst db ch ext =
     find (\<lambda>r. rChannel r = ch \<and> rExternalId r = Some ext) (reservations db)"

text \<open>
  Modelled from the spec: \<open>db.reservation.update\<close> with \<open>where: {id}\<close> and the data
  \<open>{checkIn, checkOut, guestName}\<close> of the absent database package; the row with that
  primary key is rewritten in place, every other column and row is left as it is.
\<close>

definition reservation_update :: "string \<Rightarrow> int \<Rightarrow> int \<Rightarrow> string \<Rightarrow> Db \<Rightarrow> Db" where
  "reservation_update i ci co g db =
     db\<lparr>reservations :=
          map (\<lambda>r. if rId r = i then r\<lparr>rCheckIn := ci, rCheckOut := co, rGuestName := g\<rparr> else r)
              (reservations db)\<rparr>"

text \<open>
  Modelled from the spec: \<open>db.reservation.create\<close> of the absent database package; the
  new row is appended with a generated primary key.  The arguments are the columns the
  callers set (unit, channel, external id, guest name, check-in, check-out, status,
  total amount).
\<close>

definition reservation_create ::
  "string \<Rightarrow> string \<Rightarrow> string option \<Rightarrow> string \<Rightarrow> int \<Rightarrow> int \<Rightarrow> ReservationStatus \<Rightarrow>
   real option \<Rightarrow> Db \<Rightarrow> Reservation \<times> Db" where
  "reservation_create unit ch ext g ci co st amount db =
     (let r = \<lparr>rId = idGen db (idCounter db), rUnitId = unit, rChannel = ch, rGuestName = g,
                rCheckIn = ci, rCheckOut = co, rStatus = st, rExternalId = ext,
                rTotalAmount = amount\<rparr>
      in (r, db\<lparr>reservations := reservations db @ [r], idCounter := Suc (idCounter db)\<rparr>))"

text \<open>
  Modelled from the spec: \<open>db.syncLog.create\<close> of the absent database package, the
  append-only write of one log row.
\<close>

definition syncLog_create :: "SyncLog \<Rightarrow> Db \<Rightarrow> Db" where
  "syncLog_create l db = db\<lparr>syncLogs := syncLogs db @ [l]\<rparr>"

text \<open>
  Modelled from the spec: \<open>db.channelMapping.update\<close> of the absent database package
  with \<open>where: {id}\<close>.  The data always carries \<open>lastSyncError\<close> (possibly null) and
  carries \<open>lastSyncAt\<close> only in some calls: \<open>None\<close> for the first argument means the
  column is not written.
\<close>

definition channelMapping_update :: "string \<Rightarrow> int option \<Rightarrow> string option \<Rightarrow> Db \<Rightarrow> Db" where
  "channelMapping_update i syncAt err db =
     db\<lparr>channelMappings :=
          map (\<lambda>m. if cmId m = i
                    then m\<lparr>cmLastSyncAt := (case syncAt of None \<Rightarrow> cmLastSyncAt m | Some t \<Rightarrow> Some t),
                           cmLastSyncError := err\<rparr>
                    else m)
              (channelMappings db)\<rparr>"

section \<open>JavaScript values\<close>

text \<open>
  What a \<open>throw\<close> carries: an \<open>Error\<close> with its message, or any other value.  The
  handlers read it with \<open>err instanceof Error ? err.message : 'Unknown error'\<close>.
\<close>

datatype thrown = Error string | NonError

definition errorMessageOf :: "thrown \<Rightarrow> string" where
  "errorMessageOf t = (case t of Error m \<Rightarrow> m | NonError \<Rightarrow> ''Unknown error'')"

text \<open>\<open>s || d\<close> on a string that may be null or undefined: the empty string is falsy too.\<close>

definition truthy :: "string option \<Rightarrow> bool" where
  "truthy s = (case s of None \<Rightarrow> False | Some t \<Rightarrow> t \<noteq> [])"

definition orElse :: "string option \<Rightarrow> string \<Rightarrow> string" where
  "orElse s d = (case s of None \<Rightarrow> d | Some t \<Rightarrow> if t = [] then d else t)"

definition orNull :: "string option \<Rightarrow> string option" where
  "orNull s = (if truthy s then s else None)"

text \<open>A number inside a template literal: its decimal digits.\<close>

definition digitChar :: "nat \<Rightarrow> char" where
  "digitChar d = ''0123456789'' ! d"

fun showNat :: "nat \<Rightarrow> string" where
  "showNat n = (if n < 10 then [digitChar n] else showNat (n div 10) @ [digitChar (n mod 10)])"

declare showNat.simps [simp del]


section \<open>The iCal adapter (ical.adapter.ts)\<close>

record CalendarSyncResult =
  success :: bool
  eventsFound :: nat
  eventsCreated :: nat
  eventsUpdated :: nat
  added :: nat
  updated :: nat
  error :: "string option"

record ICalEvent =
  uid :: string
  summary :: string
  dtstart :: int
  dtend :: int
  description :: "string option"

text \<open>
  What the adapter reads of one \<open>ICAL.Event\<close>: the getters \<open>uid\<close>, \<open>summary\<close>,
  \<open>startDate\<close>, \<open>endDate\<close> and \<open>description\<close>.  Each getter returns a value, which
  may be null, or throws (\<open>Inl\<close>).  A date that is not null is an \<open>ICAL.Time\<close>, of
  which the adapter calls \<open>toJSDate()\<close>: that call returns an instant or throws.
\<close>

record VEvent =
  veUid :: "thrown + string option"
  veSummary :: "thrown + string option"
  veStartDate :: "thrown + (thrown + int) option"
  veEndDate :: "thrown + (thrown + int) option"
  veDescription :: "thrown + string option"

text \<open>
  The network and the library \<open>ical.js\<close> are outside the sources and are parameters of
  the adapter.  \<open>httpFetch\<close> is what \<open>fetch(url)\<close> does: it rejects, or it answers with
  a status and a body whose reading may reject in turn.  \<open>icalParse\<close> stands for
  \<open>ICAL.parse\<close>, \<open>new ICAL.Component\<close> and \<open>getAllSubcomponents('vevent')\<close>: \<open>None\<close>
  when one of them throws.  Each component it returns is given to \<open>new ICAL.Event\<close>
  inside the loop, which gives the event or throws (\<open>Inl\<close>).  \<open>randomUUID\<close> lists the
  values that successive calls of \<open>crypto.randomUUID()\<close> return during one parse.
\<close>

datatype fetchOutcome = Rejected thrown | Response nat "thrown + string"

record Env =
  httpFetch :: "string \<Rightarrow> fetchOutcome"
  icalParse :: "string \<Rightarrow> (thrown + VEvent) list option"
  randomUUID :: "nat \<Rightarrow> string"

text \<open>
  The loop of \<open>parseICalData\<close>; \<open>k\<close> counts the UUIDs drawn so far.  The reads follow
  the order of the source: the constructor, \<open>startDate\<close> and \<open>endDate\<close> for the test,
  then \<open>uid\<close>, \<open>summary\<close>, the two \<open>toJSDate()\<close> and \<open>description\<close> for the object
  pushed.  A date getter read for the test and again for the object pushed returns the
  same value both times.  The first read that throws ends the loop with that exception
  (\<open>Inl\<close>), and the events collected so far are lost with it.
\<close>

fun collectEvents ::
  "(nat \<Rightarrow> string) \<Rightarrow> nat \<Rightarrow> (thrown + VEvent) list \<Rightarrow> thrown + ICalEvent list" where
  "collectEvents gen k [] = Inr []"
| "collectEvents gen k (c # cs) =
     (case c of
        Inl t \<Rightarrow> Inl t
      | Inr v \<Rightarrow>
     (case veStartDate v of
        Inl t \<Rightarrow> Inl t
      | Inr None \<Rightarrow> collectEvents gen k cs
      | Inr (Some startTime) \<Rightarrow>
     (case veEndDate v of
        Inl t \<Rightarrow> Inl t
      | Inr None \<Rightarrow> collectEvents gen k cs
      | Inr (Some endTime) \<Rightarrow>
     (case veUid v of
        Inl t \<Rightarrow> Inl t
      | Inr u \<Rightarrow>
     (case veSummary v of
        Inl t \<Rightarrow> Inl t
      | Inr s \<Rightarrow>
     (case startTime of
        Inl t \<Rightarrow> Inl t
      | Inr ds \<Rightarrow>
     (case endTime of
        Inl t \<Rightarrow> Inl t
      | Inr de \<Rightarrow>
     (case veDescription v of
        Inl t \<Rightarrow> Inl t
      | Inr d \<Rightarrow>
     (case collectEvents gen (if truthy u then k else Suc k) cs of
        Inl t \<Rightarrow> Inl t
      | Inr rest \<Rightarrow>
          Inr (\<lparr>uid = (if truthy u then orElse u [] else gen k),
                summary = orElse s ''Blocked'', dtstart = ds, dtend = de,
                description = orNull d\<rparr> # rest))))))))))"

text \<open>
  \<open>parseICalData\<close>: the whole body is inside \<open>try\<close>, and the \<open>catch\<close> returns the empty
  list, whether the document did not parse or a read inside the loop threw.
\<close>

definition parseICalData :: "Env \<Rightarrow> string \<Rightarrow> ICalEvent list" where
  "parseICalData env icalData =
     (case icalParse env icalData of
        None \<Rightarrow> []
      | Some vevents \<Rightarrow>
          (case collectEvents (randomUUID env) 0 vevents of
             Inl t \<Rightarrow> []
           | Inr events \<Rightarrow> events))"

text \<open>
  The body of the loop over the fetched events.  The state is the pair of counters
  \<open>eventsCreated\<close>, \<open>eventsUpdated\<close> and the database.
\<close>

definition processEvent ::
  "ChannelMapping \<Rightarrow> string \<Rightarrow> nat \<times> nat \<times> Db \<Rightarrow> ICalEvent \<Rightarrow> nat \<times> nat \<times> Db" where
  "processEvent mapping unit st event =
     (case st of (created, updatedN, db) \<Rightarrow>
        (let ext = cmChannel mapping @ ''-'' @ uid event in
         case reservation_findFirst db (cmChannel mapping) ext of
           Some existing \<Rightarrow>
             if rCheckIn existing \<noteq> dtstart event \<or> rCheckOut existing \<noteq> dtend event
             then (created, Suc updatedN,
                   reservation_update (rId existing) (dtstart event) (dtend event)
                     (orElse (Some (summary event)) ''Guest'') db)
             else (created, updatedN, db)
         | None \<Rightarrow>
             (Suc created, updatedN,
              snd (reservation_create unit (cmChannel mapping) (Some ext)
                     (orElse (Some (summary event)) ''Guest'')
                     (dtstart event) (dtend event) confirmed None db))))"

text \<open>The fetch and the parse at the head of the \<open>try\<close> block.\<close>

definition fetchICal :: "Env \<Rightarrow> string \<Rightarrow> thrown + ICalEvent list" where
  "fetchICal env url =
     (case httpFetch env url of
        Rejected t \<Rightarrow> Inl t
      | Response status body \<Rightarrow>
          if \<not> (200 \<le> status \<and> status \<le> 299)
          then Inl (Error (''Failed to fetch iCal: '' @ showNat status))
          else (case body of
                  Inl t \<Rightarrow> Inl t
                | Inr icalData \<Rightarrow> Inr (parseICalData env icalData)))"

definition syncCalendar :: "Env \<Rightarrow> ChannelMapping \<Rightarrow> string \<Rightarrow> Db \<Rightarrow> CalendarSyncResult \<times> Db" where
  "syncCalendar env mapping unit db =
     (if \<not> truthy (cmICalUrl mapping)
      then (\<lparr>success = False, eventsFound = 0, eventsCreated = 0, eventsUpdated = 0,
              added = 0, updated = 0, error = Some ''No iCal URL configured''\<rparr>, db)
      else
        (case fetchICal env (orElse (cmICalUrl mapping) []) of
           Inr events \<Rightarrow>
             (case foldl (processEvent mapping unit) (0, 0, db) events of
                (created, updatedN, db1) \<Rightarrow>
                  (\<lparr>success = True, eventsFound = length events, eventsCreated = created,
                     eventsUpdated = updatedN, added = created, updated = updatedN,
                     error = None\<rparr>,
                   syncLog_create
                     \<lparr>slChannelMappingId = cmId mapping, slStatus = ''success'',
                       slEventsFound = Some (length events), slEventsCreated = Some created,
                       slEventsUpdated = Some updatedN, slError = None,
                       slCompletedAt = clock db1\<rparr> db1))
         | Inl t \<Rightarrow>
             (\<lparr>success = False, eventsFound = 0, eventsCreated = 0, eventsUpdated = 0,
                added = 0, updated = 0, error = Some (errorMessageOf t)\<rparr>,
              syncLog_create
                \<lparr>slChannelMappingId = cmId mapping, slStatus = ''failed'',
                  slEventsFound = None, slEventsCreated = None, slEventsUpdated = None,
                  slError = Some (errorMessageOf t), slCompletedAt = clock db\<rparr> db)))"


section \<open>The sync scheduler (SyncScheduler)\<close>

record SyncResult =
  srChannelId :: string
  srPropertyName :: string
  srChannel :: string
  srSuccess :: bool
  srEventsAdded :: nat
  srEventsUpdated :: nat
  srError :: "string option"

text \<open>The fields of the scheduler object; \<open>taskSet\<close> says whether \<open>task\<close> is non-null.\<close>

record Scheduler =
  taskSet :: bool
  isRunning :: bool
  lastRunAt :: "int option"
  lastResults :: "SyncResult list"

text \<open>A channel mapping as \<open>findMany\<close> returns it with \<open>include: {property: {units}}\<close>.\<close>

record MappingWithProperty =
  mwpMapping :: ChannelMapping
  mwpPropertyName :: string
  mwpUnits :: "Unit list"

text \<open>
  The scheduler reaches the database and the adapter through four calls.  They are
  parameters here, over any state \<open>'w\<close>, so that the scheduler is verified whatever they
  do: each of the three awaited calls returns a value or rejects (\<open>Inl\<close>), and leaves a
  new state either way.
\<close>

record 'w SchedulerOps =
  findManyMappings :: "'w \<Rightarrow> (thrown + MappingWithProperty list) \<times> 'w"
  adapterSync :: "ChannelMapping \<Rightarrow> string \<Rightarrow> 'w \<Rightarrow> (thrown + CalendarSyncResult) \<times> 'w"
  updateMapping :: "string \<Rightarrow> int option \<Rightarrow> string option \<Rightarrow> 'w \<Rightarrow> (thrown + unit) \<times> 'w"
  newDate :: "'w \<Rightarrow> int"

text \<open>
  The body of the loop over the mappings, for one mapping.  \<open>Inr\<close> is the entry pushed
  onto \<open>results\<close>; \<open>Inl\<close> is an exception that leaves the loop, which only the update
  inside the inner \<open>catch\<close> can raise.
\<close>

definition syncMapping :: "'w SchedulerOps \<Rightarrow> MappingWithProperty \<Rightarrow> 'w \<Rightarrow> (thrown + SyncResult) \<times> 'w" where
  "syncMapping ops m w =
     (case mwpUnits m of
        [] \<Rightarrow>
          (Inr \<lparr>srChannelId = cmId (mwpMapping m), srPropertyName = mwpPropertyName m,
                 srChannel = cmChannel (mwpMapping m), srSuccess = False, srEventsAdded = 0,
                 srEventsUpdated = 0, srError = Some ''No unit found for property''\<rparr>, w)
      | unit # _ \<Rightarrow>
          (case
             (case adapterSync ops (mwpMapping m) (uId unit) w of
                (Inl t, w1) \<Rightarrow> (Inl t, w1)
              | (Inr syncResult, w1) \<Rightarrow>
                  (case updateMapping ops (cmId (mwpMapping m)) (Some (newDate ops w1))
                          (orNull (error syncResult)) w1 of
                     (Inl t, w2) \<Rightarrow> (Inl t, w2)
                   | (Inr _, w2) \<Rightarrow>
                       (Inr \<lparr>srChannelId = cmId (mwpMapping m),
                              srPropertyName = mwpPropertyName m,
                              srChannel = cmChannel (mwpMapping m),
                              srSuccess = (\<not> truthy (error syncResult)),
                              srEventsAdded = added syncResult,
                              srEventsUpdated = updated syncResult,
                              srError = error syncResult\<rparr>, w2)))
           of
             (Inr r, w') \<Rightarrow> (Inr r, w')
           | (Inl err, w') \<Rightarrow>
               (case updateMapping ops (cmId (mwpMapping m)) None (Some (errorMessageOf err)) w' of
                  (Inl t, w'') \<Rightarrow> (Inl t, w'')
                | (Inr _, w'') \<Rightarrow>
                    (Inr \<lparr>srChannelId = cmId (mwpMapping m),
                           srPropertyName = mwpPropertyName m,
                           srChannel = cmChannel (mwpMapping m), srSuccess = False,
                           srEventsAdded = 0, srEventsUpdated = 0,
                           srError = Some (errorMessageOf err)\<rparr>, w''))))"

text \<open>
  The loop.  It returns the exception that ended it early, if any, the \<open>results\<close> array
  as it stands, and the state.
\<close>

fun syncLoop ::
  "'w SchedulerOps \<Rightarrow> MappingWithProperty list \<Rightarrow> SyncResult list \<Rightarrow> 'w \<Rightarrow>
   thrown option \<times> SyncResult list \<times> 'w" where
  "syncLoop ops [] results w = (None, results, w)"
| "syncLoop ops (m # ms) results w =
     (case syncMapping ops m w of
        (Inl t, w') \<Rightarrow> (Some t, results, w')
      | (Inr r, w') \<Rightarrow> syncLoop ops ms (results @ [r]) w')"

text \<open>
  \<open>runSync\<close>: the guard, then \<open>try\<close> (the query and the loop), the outer \<open>catch\<close>, which
  only logs, and \<open>finally\<close>.  The result is the returned list, the scheduler object and
  the state.
\<close>

definition runSync :: "'w SchedulerOps \<Rightarrow> Scheduler \<Rightarrow> 'w \<Rightarrow> SyncResult list \<times> Scheduler \<times> 'w" where
  "runSync ops sched w =
     (if isRunning sched then (lastResults sched, sched, w)
      else
        (let sched1 = sched\<lparr>isRunning := True, lastRunAt := Some (newDate ops w)\<rparr>;
             (results, w') =
               (case findManyMappings ops w of
                  (Inl t, w1) \<Rightarrow> ([], w1)
                | (Inr mappings, w1) \<Rightarrow> snd (syncLoop ops mappings [] w1))
         in (results, sched1\<lparr>isRunning := False, lastResults := results\<rparr>, w')))"

text \<open>
  Modelled from the spec: the four calls on the store of this development, for the
  absent database package: \<open>db.channelMapping.findMany\<close> with \<open>iCalUrl: {not: null}\<close>
  and the property and its units included, \<open>iCalAdapter.syncCalendar\<close>,
  \<open>db.channelMapping.update\<close> and \<open>new Date()\<close>.  A mapping row always has its
  property.
\<close>

definition withProperty :: "Db \<Rightarrow> ChannelMapping \<Rightarrow> MappingWithProperty list" where
  "withProperty db m =
     (case find (\<lambda>p. pId p = cmPropertyId m) (properties db) of
        None \<Rightarrow> []
      | Some p \<Rightarrow>
          [\<lparr>mwpMapping = m, mwpPropertyName = pName p,
            mwpUnits = filter (\<lambda>u. uPropertyId u = pId p) (units db)\<rparr>])"

definition dbOps :: "Env \<Rightarrow> Db SchedulerOps" where
  "dbOps env =
     \<lparr>findManyMappings =
        (\<lambda>db. (Inr (concat (map (withProperty db)
                       (filter (\<lambda>m. cmICalUrl m \<noteq> None) (channelMappings db)))), db)),
      adapterSync = (\<lambda>m unit db. case syncCalendar env m unit db of (r, db') \<Rightarrow> (Inr r, db')),
      updateMapping = (\<lambda>i syncAt err db. (Inr (), channelMapping_update i syncAt err db)),
      newDate = clock\<rparr>"

section \<open>The calendar service: manual sync and manual reservations\<close>

definition ownsProperty :: "Db \<Rightarrow> string \<Rightarrow> string \<Rightarrow> bool" where
  "ownsProperty db userId pid =
     (find (\<lambda>p. pId p = pid \<and> pUserId p = userId) (properties db) \<noteq> None)"

definition syncChannel :: "Env \<Rightarrow> string \<Rightarrow> string \<Rightarrow> Db \<Rightarrow> (thrown + CalendarSyncResult) \<times> Db" where
  "syncChannel env userId channelMappingId db =
     (case find (\<lambda>m. cmId m = channelMappingId \<and> ownsProperty db userId (cmPropertyId m))
             (channelMappings db) of
        None \<Rightarrow> (Inl (Error ''Channel mapping not found''), db)
      | Some mapping \<Rightarrow>
          if \<not> truthy (cmICalUrl mapping)
          then (Inl (Error ''No iCal URL configured for this channel''), db)
          else
            (case filter (\<lambda>u. uPropertyId u = cmPropertyId mapping) (units db) of
               [] \<Rightarrow> (Inl (Error ''Property has no units''), db)
             | unit # _ \<Rightarrow>
                 (case syncCalendar env mapping (uId unit) db of
                    (result, db1) \<Rightarrow>
                      (Inr result,
                       channelMapping_update channelMappingId (Some (clock db1))
                         (orNull (error result)) db1))))"

record CreateReservationInput =
  inUnitId :: string
  inChannel :: string
  inGuestName :: string
  inCheckIn :: int
  inCheckOut :: int
  inTotalAmount :: "real option"
  inExternalId :: "string option"

text \<open>
  \<open>createReservation\<close> does not set \<open>status\<close>: the new row takes the default of the
  schema, which is not in the sources and is the parameter \<open>dflt\<close>.
\<close>

definition createReservation ::
  "ReservationStatus \<Rightarrow> string \<Rightarrow> CreateReservationInput \<Rightarrow> Db \<Rightarrow> (thrown + Reservation) \<times> Db" where
  "createReservation dflt userId input db =
     (case find (\<lambda>u. uId u = inUnitId input \<and> ownsProperty db userId (uPropertyId u)) (units db) of
        None \<Rightarrow> (Inl (Error ''Unit not found''), db)
      | Some unit \<Rightarrow>
          (let existingReservations =
                 filter (\<lambda>r. rUnitId r = inUnitId input
                            \<and> (rStatus r = confirmed \<or> rStatus r = pending)
                            \<and> rCheckIn r < inCheckOut input
                            \<and> rCheckOut r > inCheckIn input)
                        (reservations db)
           in if length existingReservations > 0
              then (Inl (Error ''Dates conflict with existing reservation''), db)
              else (case reservation_create (inUnitId input) (inChannel input) (inExternalId input)
                           (inGuestName input) (inCheckIn input) (inCheckOut input) dflt
                           (inTotalAmount input) db of
                      (r, db') \<Rightarrow> (Inr r, db'))))"


section \<open>Notions used to state the properties of the reconciler\<close>

text \<open>
  The rows stored under a dedup key, the key of a row, and the invariant that no two rows
  with an external id share channel and external id.
\<close>

definition keyedRows :: "string \<Rightarrow> string \<Rightarrow> Reservation list \<Rightarrow> Reservation list" where
  "keyedRows ch ext rs = filter (\<lambda>r. rChannel r = ch \<and> rExternalId r = Some ext) rs"

definition rowKey :: "Reservation \<Rightarrow> string \<times> string option" where
  "rowKey r = (rChannel r, rExternalId r)"

definition uniqueKeys :: "Reservation list \<Rightarrow> bool" where
  "uniqueKeys rs = distinct (map rowKey (filter (\<lambda>r. rExternalId r \<noteq> None) rs))"

text \<open>
  A fetched event is identical to the stored reservation it maps to: the lookup of the
  reconciler finds a row, and its check-in, check-out and guest name are the start, end
  and title of the event.
\<close>

definition storedIdentical :: "Db \<Rightarrow> ChannelMapping \<Rightarrow> ICalEvent \<Rightarrow> bool" where
  "storedIdentical db mapping ev =
     (case reservation_findFirst db (cmChannel mapping) (cmChannel mapping @ ''-'' @ uid ev) of
        None \<Rightarrow> False
      | Some r \<Rightarrow> rCheckIn r = dtstart ev \<and> rCheckOut r = dtend ev \<and> rGuestName r = summary ev)"

text \<open>
  Any number of reconciliation runs, one after the other; each run has its own network
  and feed, its connection and its target unit.
\<close>

fun syncRuns :: "(Env \<times> ChannelMapping \<times> string) list \<Rightarrow> Db \<Rightarrow> Db" where
  "syncRuns [] db = db"
| "syncRuns ((env, mapping, unit) # runs) db =
     syncRuns runs (snd (syncCalendar env mapping unit db))"

text \<open>
  After a step the reservation found under the key of the event carries the dates of the
  event; and that reservation does not have its check-in strictly before its check-out.
\<close>

definition storedDates :: "Db \<Rightarrow> ChannelMapping \<Rightarrow> ICalEvent \<Rightarrow> bool" where
  "storedDates db mapping ev =
     (case reservation_findFirst db (cmChannel mapping) (cmChannel mapping @ ''-'' @ uid ev) of
        None \<Rightarrow> False
      | Some r \<Rightarrow> rCheckIn r = dtstart ev \<and> rCheckOut r = dtend ev)"

definition storedBackwards :: "Db \<Rightarrow> ChannelMapping \<Rightarrow> ICalEvent \<Rightarrow> bool" where
  "storedBackwards db mapping ev =
     (case reservation_findFirst db (cmChannel mapping) (cmChannel mapping @ ''-'' @ uid ev) of
        None \<Rightarrow> False
      | Some r \<Rightarrow> \<not> rCheckIn r < rCheckOut r)"

text \<open>
  The primary keys of the reservation table are distinct, and the keys still to be
  generated are new: none of them is in the table, and no two of them are equal.
\<close>

definition freshIds :: "Db \<Rightarrow> bool" where
  "freshIds db =
     (distinct (map rId (reservations db))
      \<and> inj (idGen db)
      \<and> (\<forall>n \<ge> idCounter db. idGen db n \<notin> set (map rId (reservations db))))"

section \<open>Notions used to state the properties of manual reservations\<close>

text \<open>
  A stored reservation stands in the way of a request; the unit of a request belongs to
  the user; and the row a successful request adds.
\<close>

definition conflictsWith :: "CreateReservationInput \<Rightarrow> Reservation \<Rightarrow> bool" where
  "conflictsWith input r =
     (rUnitId r = inUnitId input \<and> (rStatus r = confirmed \<or> rStatus r = pending)
      \<and> rCheckIn r < inCheckOut input \<and> inCheckIn input < rCheckOut r)"

definition ownsUnit :: "Db \<Rightarrow> string \<Rightarrow> string \<Rightarrow> bool" where
  "ownsUnit db userId unit =
     list_ex (\<lambda>u. uId u = unit
                \<and> list_ex (\<lambda>p. pId p = uPropertyId u \<and> pUserId p = userId) (properties db))
             (units db)"

definition newReservation :: "ReservationStatus \<Rightarrow> CreateReservationInput \<Rightarrow> Db \<Rightarrow> Reservation" where
  "newReservation dflt input db =
     \<lparr>rId = idGen db (idCounter db), rUnitId = inUnitId input, rChannel = inChannel input,
      rGuestName = inGuestName input, rCheckIn = inCheckIn input, rCheckOut = inCheckOut input,
      rStatus = dflt, rExternalId = inExternalId input, rTotalAmount = inTotalAmount input\<rparr>"

section \<open>The scheduler under interleaved calls\<close>

text \<open>
  \<open>runSync\<close> is an \<open>async\<close> method: a call runs until its next \<open>await\<close>, and between
  two of its parts other calls on the same scheduler object may run.  A call is at one of
  these points of the body of \<open>runSync\<close>:

  \<^item> \<open>Entering\<close>: the call has been made and is before the guard;
  \<^item> \<open>Querying\<close>: past the two assignments, before \<open>findMany\<close> answers;
  \<^item> \<open>Looping ms results\<close>: in the \<open>for\<close> loop, with the mappings \<open>ms\<close> left and
    the array \<open>results\<close> as it stands;
  \<^item> \<open>Updating m syncResult syncAt ms results\<close>: \<open>syncCalendar\<close> has answered for \<open>m\<close>
    and \<open>new Date()\<close> has been taken, before the update in the inner \<open>try\<close> answers;
  \<^item> \<open>Catching m err ms results\<close>: in the inner \<open>catch\<close> with the exception \<open>err\<close>,
    before its update answers;
  \<^item> \<open>Leaving results\<close>: before the \<open>finally\<close> block, the loop being over or an
    exception having reached the outer \<open>catch\<close>, which only logs;
  \<^item> \<open>Returned results\<close>: the call has returned \<open>results\<close>.
\<close>

datatype task =
    Entering
  | Querying
  | Looping "MappingWithProperty list" "SyncResult list"
  | Updating MappingWithProperty CalendarSyncResult int "MappingWithProperty list" "SyncResult list"
  | Catching MappingWithProperty thrown "MappingWithProperty list" "SyncResult list"
  | Leaving "SyncResult list"
  | Returned "SyncResult list"

text \<open>
  One step of one call, on the scheduler object and the state of the collaborators.  The
  guard and the two assignments after it are one step, since no \<open>await\<close> separates them,
  and so are the two assignments of \<open>finally\<close>.  No step runs more of the body than
  what the code runs between two \<open>await\<close>s, so that every interleaving of the calls of
  the code is one of these steps.
\<close>

fun taskStep :: "'w SchedulerOps \<Rightarrow> Scheduler \<times> 'w \<times> task \<Rightarrow> Scheduler \<times> 'w \<times> task" where
  "taskStep ops (sched, w, Entering) =
     (if isRunning sched then (sched, w, Returned (lastResults sched))
      else (sched\<lparr>isRunning := True, lastRunAt := Some (newDate ops w)\<rparr>, w, Querying))"
| "taskStep ops (sched, w, Querying) =
     (case findManyMappings ops w of
        (Inl t, w1) \<Rightarrow> (sched, w1, Leaving [])
      | (Inr mappings, w1) \<Rightarrow> (sched, w1, Looping mappings []))"
| "taskStep ops (sched, w, Looping [] results) = (sched, w, Leaving results)"
| "taskStep ops (sched, w, Looping (m # ms) results) =
     (case mwpUnits m of
        [] \<Rightarrow>
          (sched, w,
           Looping ms (results @
             [\<lparr>srChannelId = cmId (mwpMapping m), srPropertyName = mwpPropertyName m,
               srChannel = cmChannel (mwpMapping m), srSuccess = False, srEventsAdded = 0,
               srEventsUpdated = 0, srError = Some ''No unit found for property''\<rparr>]))
      | unit # _ \<Rightarrow>
          (case adapterSync ops (mwpMapping m) (uId unit) w of
             (Inl t, w1) \<Rightarrow> (sched, w1, Catching m t ms results)
           | (Inr syncResult, w1) \<Rightarrow>
               (sched, w1, Updating m syncResult (newDate ops w1) ms results)))"
| "taskStep ops (sched, w, Updating m syncResult syncAt ms results) =
     (case updateMapping ops (cmId (mwpMapping m)) (Some syncAt) (orNull (error syncResult)) w of
        (Inl t, w2) \<Rightarrow> (sched, w2, Catching m t ms results)
      | (Inr _, w2) \<Rightarrow>
          (sched, w2,
           Looping ms (results @
             [\<lparr>srChannelId = cmId (mwpMapping m), srPropertyName = mwpPropertyName m,
               srChannel = cmChannel (mwpMapping m),
               srSuccess = (\<not> truthy (error syncResult)),
               srEventsAdded = added syncResult, srEventsUpdated = updated syncResult,
               srError = error syncResult\<rparr>])))"
| "taskStep ops (sched, w, Catching m err ms results) =
     (case updateMapping ops (cmId (mwpMapping m)) None (Some (errorMessageOf err)) w of
        (Inl t, w2) \<Rightarrow> (sched, w2, Leaving results)
      | (Inr _, w2) \<Rightarrow>
          (sched, w2,
           Looping ms (results @
             [\<lparr>srChannelId = cmId (mwpMapping m), srPropertyName = mwpPropertyName m,
               srChannel = cmChannel (mwpMapping m), srSuccess = False, srEventsAdded = 0,
               srEventsUpdated = 0, srError = Some (errorMessageOf err)\<rparr>])))"
| "taskStep ops (sched, w, Leaving results) =
     (sched\<lparr>isRunning := False, lastResults := results\<rparr>, w, Returned results)"
| "taskStep ops (sched, w, Returned results) = (sched, w, Returned results)"

text \<open>
  Any number of calls of \<open>runSync\<close> on one scheduler object.  A schedule is the list of
  the calls that take the next step, in order; a call that has not been made yet is
  \<open>Entering\<close>.
\<close>

record 'w System =
  sysSched :: Scheduler
  sysWorld :: 'w
  sysCalls :: "task list"

definition sysStep :: "'w SchedulerOps \<Rightarrow> 'w System \<Rightarrow> nat \<Rightarrow> 'w System" where
  "sysStep ops s i =
     (if i < length (sysCalls s)
      then (case taskStep ops (sysSched s, sysWorld s, sysCalls s ! i) of
              (sched', w', t') \<Rightarrow>
                \<lparr>sysSched = sched', sysWorld = w', sysCalls = (sysCalls s)[i := t']\<rparr>)
      else s)"

text \<open>
  A call is running a batch from the moment it has passed the guard until it has left
  \<open>finally\<close>.  The scheduler is single-flight in a state where the number of calls
  running a batch is one if \<open>isRunning\<close> is set and zero if it is not.
\<close>

fun inBatch :: "task \<Rightarrow> bool" where
  "inBatch Entering = False"
| "inBatch (Returned results) = False"
| "inBatch t = True"

definition singleFlight :: "'w System \<Rightarrow> bool" where
  "singleFlight s =
     (length (filter inBatch (sysCalls s)) = (if isRunning (sysSched s) then 1 else 0))"

section \<open>Sample data\<close>

text \<open>
  Four calendar events: \<open>evA\<close> and \<open>evB\<close> overlap on unit \<open>u1\<close>, \<open>evC\<close> starts on
  the same unit at the instant \<open>evB\<close> ends, and \<open>evD\<close> covers all of them on another
  unit.
\<close>

definition evA :: CalendarEvent where
  "evA = \<lparr>evId = ''a'', unitId = ''u1'', propertyId = ''p'', evType = booked,
           channel = Some ''airbnb'', guestName = Some ''Ann'', checkIn = 1, checkOut = 3,
           externalId = None, hasConflict = False\<rparr>"

definition evB :: CalendarEvent where
  "evB = \<lparr>evId = ''b'', unitId = ''u1'', propertyId = ''p'', evType = blocked,
           channel = None, guestName = None, checkIn = 2, checkOut = 4,
           externalId = None, hasConflict = False\<rparr>"

definition evC :: CalendarEvent where
  "evC = \<lparr>evId = ''c'', unitId = ''u1'', propertyId = ''p'', evType = booked,
           channel = Some ''vrbo'', guestName = Some ''Cy'', checkIn = 4, checkOut = 6,
           externalId = None, hasConflict = False\<rparr>"

definition evD :: CalendarEvent where
  "evD = \<lparr>evId = ''d'', unitId = ''u2'', propertyId = ''p'', evType = booked,
           channel = Some ''airbnb'', guestName = Some ''Di'', checkIn = 1, checkOut = 6,
           externalId = None, hasConflict = False\<rparr>"

text \<open>
  A database with one property, one unit and one Airbnb connection, and no reservation
  yet; a network that answers every request with status 200 and a document that parses to
  the given entries; two feeds, the second moving the reservation \<open>u1\<close> of the first.
\<close>

definition sampleMapping :: ChannelMapping where
  "sampleMapping = \<lparr>cmId = ''m1'', cmPropertyId = ''p1'', cmChannel = ''airbnb'',
     cmICalUrl = Some ''https://feeds.test/a.ics'', cmLastSyncAt = None,
     cmLastSyncError = None\<rparr>"

definition sampleDb :: Db where
  "sampleDb = \<lparr>reservations = [], availabilityBlocks = [], syncLogs = [],
     channelMappings = [sampleMapping],
     properties = [\<lparr>pId = ''p1'', pUserId = ''owner'', pName = ''Beach House''\<rparr>],
     units = [\<lparr>uId = ''unit1'', uPropertyId = ''p1''\<rparr>],
     clock = 1000, idCounter = 0, idGen = (\<lambda>n. ''res-'' @ showNat n)\<rparr>"

text \<open>An entry of a feed none of whose reads throws.\<close>

definition entry :: "string option \<Rightarrow> string option \<Rightarrow> int option \<Rightarrow> int option \<Rightarrow> thrown + VEvent" where
  "entry u s a b =
     Inr \<lparr>veUid = Inr u, veSummary = Inr s, veStartDate = Inr (map_option Inr a),
          veEndDate = Inr (map_option Inr b), veDescription = Inr None\<rparr>"

definition envOf :: "(thrown + VEvent) list \<Rightarrow> Env" where
  "envOf feed = \<lparr>httpFetch = (\<lambda>url. Response 200 (Inr ''BEGIN:VCALENDAR'')),
     icalParse = (\<lambda>text. Some feed), randomUUID = (\<lambda>n. ''uuid-'' @ showNat n)\<rparr>"

definition feedA :: "(thrown + VEvent) list" where
  "feedA = [entry (Some ''u1'') (Some ''Anna'') (Some 10) (Some 20),
            entry (Some ''u2'') (Some ''Ben'') (Some 20) (Some 30)]"

definition feedB :: "(thrown + VEvent) list" where
  "feedB = [entry (Some ''u1'') (Some ''Anna'') (Some 12) (Some 22)]"

definition eventsA :: "ICalEvent list" where
  "eventsA = [\<lparr>uid = ''u1'', summary = ''Anna'', dtstart = 10, dtend = 20, description = None\<rparr>,
              \<lparr>uid = ''u2'', summary = ''Ben'', dtstart = 20, dtend = 30, description = None\<rparr>]"

definition afterFirstRun :: Db where
  "afterFirstRun = snd (syncCalendar (envOf feedA) sampleMapping ''unit1'' sampleDb)"

text \<open>Three runs on the same connection: the first feed, the changed feed, the first again.\<close>

definition threeRuns :: "(Env \<times> ChannelMapping \<times> string) list" where
  "threeRuns = [(envOf feedA, sampleMapping, ''unit1''), (envOf feedB, sampleMapping, ''unit1''),
                (envOf feedA, sampleMapping, ''unit1'')]"

text \<open>
  The stored reservation of \<open>u1\<close> after the first run, the same event moved, and the same
  event under another title; feeds with an entry without title and with an entry that
  ends before it starts; a network whose document does not parse, and one that answers
  404.
\<close>

definition resAnna :: Reservation where
  "resAnna = \<lparr>rId = ''res-0'', rUnitId = ''unit1'', rChannel = ''airbnb'', rGuestName = ''Anna'',
       rCheckIn = 10, rCheckOut = 20, rStatus = confirmed, rExternalId = Some ''airbnb-u1'',
       rTotalAmount = None\<rparr>"

definition evMoved :: ICalEvent where
  "evMoved = \<lparr>uid = ''u1'', summary = ''Anna'', dtstart = 12, dtend = 22, description = None\<rparr>"

definition evRenamed :: ICalEvent where
  "evRenamed = \<lparr>uid = ''u1'', summary = ''Anne-Marie'', dtstart = 10, dtend = 20,
                 description = None\<rparr>"

definition feedRenamed :: "(thrown + VEvent) list" where
  "feedRenamed = [entry (Some ''u1'') (Some ''Anne-Marie'') (Some 10) (Some 20)]"



definition feedBackwards :: "(thrown + VEvent) list" where
  "feedBackwards = [entry (Some ''u7'') (Some ''Zed'') (Some 50) (Some 40),
                    entry (Some ''u8'') (Some ''Yan'') (Some 60) None]"

text \<open>The first feed followed by an entry whose \<open>endDate\<close> getter throws.\<close>

definition feedBroken :: "(thrown + VEvent) list" where
  "feedBroken = feedA @
     [Inr \<lparr>veUid = Inr (Some ''u3''), veSummary = Inr (Some ''Cy''),
           veStartDate = Inr (Some (Inr 30)), veEndDate = Inl (Error ''invalid date''),
           veDescription = Inr None\<rparr>]"

definition evBackwards :: ICalEvent where
  "evBackwards = \<lparr>uid = ''u7'', summary = ''Zed'', dtstart = 50, dtend = 40, description = None\<rparr>"

definition envUnparsable :: Env where
  "envUnparsable = \<lparr>httpFetch = (\<lambda>url. Response 200 (Inr ''<html>Sign in</html>'')),
     icalParse = (\<lambda>text. None), randomUUID = (\<lambda>n. ''uuid-'' @ showNat n)\<rparr>"

definition env404 :: Env where
  "env404 = \<lparr>httpFetch = (\<lambda>url. Response 404 (Inr [])),
     icalParse = (\<lambda>text. None), randomUUID = (\<lambda>n. ''uuid-'' @ showNat n)\<rparr>"

text \<open>
  A scheduler at rest; collaborators whose adapter call and mapping update both reject,
  over a state that only counts the calls; and two calls of \<open>runSync\<close> about to be made
  on the scheduler at rest.
\<close>

definition idle :: Scheduler where
  "idle = \<lparr>taskSet = True, isRunning = False, lastRunAt = None, lastResults = []\<rparr>"

definition brokenOps :: "nat SchedulerOps" where
  "brokenOps =
     \<lparr>findManyMappings =
        (\<lambda>w. (Inr [\<lparr>mwpMapping = sampleMapping, mwpPropertyName = ''Beach House'',
                    mwpUnits = [\<lparr>uId = ''unit1'', uPropertyId = ''p1''\<rparr>]\<rparr>], Suc w)),
      adapterSync = (\<lambda>m unit w. (Inl (Error ''connection lost''), Suc w)),
      updateMapping = (\<lambda>i syncAt err w. (Inl NonError, Suc w)),
      newDate = int\<rparr>"

text \<open>
  A database with one confirmed reservation and one maintenance block on the unit, and a
  manual request for the unit between two instants.
\<close>

definition bookedDb :: Db where
  "bookedDb = sampleDb\<lparr>reservations := [resAnna],
     availabilityBlocks :=
      [\<lparr>bId = ''blk-0'', bUnitId = ''unit1'', bType = maintenance, bStartDate = 50,
        bEndDate = 60, bNotes = None\<rparr>],
     idCounter := 1\<rparr>"

definition request :: "int \<Rightarrow> int \<Rightarrow> CreateReservationInput" where
  "request ci co = \<lparr>inUnitId = ''unit1'', inChannel = ''direct'', inGuestName = ''Walk-in'',
     inCheckIn = ci, inCheckOut = co, inTotalAmount = None, inExternalId = None\<rparr>"

section \<open>Properties of the conflict detector\<close>

subsection \<open>What the double loop reports\<close>

lemma overlapsWith_mset:
  "image_mset unordered (mset (overlapsWith a bs)) = reportedWith a (mset bs)"
  by (induction bs) (auto simp: reportedWith_def unordered_def intersection_def overlaps_def)

lemma reported_Cons: "reported (x # xs) = reportedWith x (mset xs) + reported xs"
  by (simp add: reported_def reportedWith_def)

lemma unitConflicts_mset: "image_mset unordered (mset (unitConflicts xs)) = reported xs"
  by (induction xs) (simp_all add: reported_Cons overlapsWith_mset, simp add: reported_def)

lemma reportedWith_add:
  "reportedWith x (add_mset y M) =
     (if overlaps (x, y) then {#intersection (x, y)#} else {#}) + reportedWith x M"
  by (simp add: reportedWith_def)

lemma intersection_sym: "intersection (x, y) = intersection (y, x)"
  by (simp add: intersection_def max.commute min.commute add_mset_commute)

lemma overlaps_sym: "overlaps (x, y) = overlaps (y, x)"
  by (auto simp: overlaps_def)

subsection \<open>Sorting does not change the reported pairs\<close>

lemma reported_insort: "reported (insort_key f x xs) = reported (x # xs)"
proof (induction xs)
  case Nil
  then show ?case by simp
next
  case (Cons y ys)
  show ?case
  proof (cases "f x \<le> f y")
    case True
    then show ?thesis by simp
  next
    case False
    then have "reported (insort_key f x (y # ys))
        = reportedWith y (mset (insort_key f x ys)) + reported (insort_key f x ys)"
      by (simp add: reported_Cons)
    also have "\<dots> = reportedWith y (add_mset x (mset ys)) + reported (x # ys)"
      by (simp add: Cons.IH)
    also have "\<dots> = reported (x # y # ys)"
      using overlaps_sym[of x y] intersection_sym[of x y]
      by (simp add: reported_Cons reportedWith_add)
    finally show ?thesis .
  qed
qed

lemma reported_sort: "reported (sort_key f xs) = reported xs"
  by (induction xs) (simp_all add: reported_insort reported_Cons)

subsection \<open>The pairs of a list, unit by unit\<close>

lemma sum_list_distinct_bump:
  fixes F :: "'k \<Rightarrow> 'b::comm_monoid_add"
  shows "distinct ks \<Longrightarrow> k \<in> set ks \<Longrightarrow>
    sum_list (map (\<lambda>u. if u = k then B + F u else F u) ks) = B + sum_list (map F ks)"
proof (induction ks)
  case Nil
  then show ?case by simp
next
  case (Cons a ks)
  show ?case
  proof (cases "a = k")
    case True
    with Cons.prems have "k \<notin> set ks" by simp
    then have "sum_list (map (\<lambda>u. if u = k then B + F u else F u) ks) = sum_list (map F ks)"
      by (induction ks) auto
    with True show ?thesis by (simp add: ac_simps)
  next
    case False
    with Cons show ?thesis by (simp add: ac_simps)
  qed
qed

lemma reportedWith_sameUnit:
  "image_mset intersection
     (filter_mset (\<lambda>p. sameUnit p \<and> overlaps p) (image_mset (Pair x) (mset xs)))
     = reportedWith x (mset (unitEventsOf (unitId x) xs))"
  by (induction xs) (auto simp: reportedWith_def unitEventsOf_def sameUnit_def)

lemma reported_partition:
  "distinct ks \<Longrightarrow> unitId ` set xs \<subseteq> set ks \<Longrightarrow>
   sum_list (map (\<lambda>u. reported (unitEventsOf u xs)) ks)
     = image_mset intersection
         (filter_mset (\<lambda>p. sameUnit p \<and> overlaps p) (mset (pairs xs)))"
proof (induction xs)
  case Nil
  then show ?case by (simp add: unitEventsOf_def reported_def)
next
  case (Cons x xs)
  have step: "\<And>u. reported (unitEventsOf u (x # xs)) =
      (if u = unitId x
       then reportedWith x (mset (unitEventsOf (unitId x) xs)) + reported (unitEventsOf u xs)
       else reported (unitEventsOf u xs))"
    by (auto simp: unitEventsOf_def reported_Cons)
  have "sum_list (map (\<lambda>u. reported (unitEventsOf u (x # xs))) ks)
       = reportedWith x (mset (unitEventsOf (unitId x) xs))
         + sum_list (map (\<lambda>u. reported (unitEventsOf u xs)) ks)"
    unfolding step using Cons.prems by (intro sum_list_distinct_bump) auto
  also have "\<dots> = reportedWith x (mset (unitEventsOf (unitId x) xs)) +
       image_mset intersection
         (filter_mset (\<lambda>p. sameUnit p \<and> overlaps p) (mset (pairs xs)))"
    using Cons by simp
  finally show ?case by (simp add: reportedWith_sameUnit)
qed

subsection \<open>The map from units to their events\<close>

lemma groupStep_distinct: "distinct (map fst m) \<Longrightarrow> distinct (map fst (groupStep m e))"
  by (simp add: groupStep_def Let_def distinct_update distinct_map_entry)

lemma groupStep_map_of:
  "map_of (groupStep m e) =
     (map_of m)(unitId e \<mapsto> (case map_of m (unitId e) of None \<Rightarrow> [e] | Some es \<Rightarrow> es @ [e]))"
  by (auto simp: groupStep_def Let_def map_of_map_entry update_conv' fun_eq_iff
           split: option.splits)

lemma eventsByUnit_distinct: "distinct (map fst (eventsByUnit xs))"
proof (induction xs rule: rev_induct)
  case Nil
  then show ?case by (simp add: eventsByUnit_def)
next
  case (snoc x xs)
  have "eventsByUnit (xs @ [x]) = groupStep (eventsByUnit xs) x"
    by (simp add: eventsByUnit_def)
  with snoc show ?case by (simp add: groupStep_distinct)
qed

lemma unitEventsOf_none: "u \<notin> unitId ` set xs \<Longrightarrow> unitEventsOf u xs = []"
  by (induction xs) (auto simp: unitEventsOf_def)

lemma eventsByUnit_map_of:
  "map_of (eventsByUnit xs) u =
     (if u \<in> unitId ` set xs then Some (unitEventsOf u xs) else None)"
proof (induction xs rule: rev_induct)
  case Nil
  then show ?case by (simp add: eventsByUnit_def)
next
  case (snoc x xs)
  have unf: "eventsByUnit (xs @ [x]) = groupStep (eventsByUnit xs) x"
    by (simp add: eventsByUnit_def)
  have none: "unitId x \<notin> unitId ` set xs \<Longrightarrow> unitEventsOf (unitId x) xs = []"
    by (rule unitEventsOf_none)
  show ?case
    unfolding unf groupStep_map_of using snoc none
    by (auto simp: unitEventsOf_def)
qed

lemma eventsByUnit_entries:
  assumes "(u, es) \<in> set (eventsByUnit xs)"
  shows "es = unitEventsOf u xs"
proof -
  from assms have "map_of (eventsByUnit xs) u = Some es"
    using eventsByUnit_distinct[of xs] by (simp add: map_of_eq_Some_iff)
  then show ?thesis
    unfolding eventsByUnit_map_of by (simp split: if_splits)
qed

lemma eventsByUnit_keys: "set (map fst (eventsByUnit xs)) = unitId ` set xs"
proof -
  have "set (map fst (eventsByUnit xs)) = dom (map_of (eventsByUnit xs))"
    by (simp add: dom_map_of_conv_image_fst)
  also have "\<dots> = unitId ` set xs"
    by (auto simp: dom_def eventsByUnit_map_of)
  finally show ?thesis .
qed

subsection \<open>The detector as a whole\<close>

lemma concat_unitConflicts_mset:
  "image_mset unordered (mset (concat (map (\<lambda>(u, es). unitConflicts (g es)) m)))
     = sum_list (map (\<lambda>(u, es). reported (g es)) m)"
  by (induction m) (auto simp: unitConflicts_mset)

lemma detectConflicts_mset:
  "image_mset unordered (mset (detectConflicts events)) =
   image_mset intersection
     (filter_mset (\<lambda>p. sameUnit p \<and> overlaps p) (mset (pairs events)))"
proof -
  let ?m = "eventsByUnit events"
  have "image_mset unordered (mset (detectConflicts events))
      = sum_list (map (\<lambda>(u, es). reported (sort_key checkIn es)) ?m)"
    unfolding detectConflicts_def by (rule concat_unitConflicts_mset)
  also have "\<dots> = sum_list (map (\<lambda>p. reported (unitEventsOf (fst p) events)) ?m)"
    by (rule arg_cong[where f = sum_list], rule map_cong)
       (auto simp: reported_sort dest: eventsByUnit_entries)
  also have "\<dots> = sum_list (map (\<lambda>u. reported (unitEventsOf u events)) (map fst ?m))"
    by (simp add: comp_def)
  also have "\<dots> = image_mset intersection
        (filter_mset (\<lambda>p. sameUnit p \<and> overlaps p) (mset (pairs events)))"
    using eventsByUnit_distinct[of events] eventsByUnit_keys[of events]
    by (intro reported_partition) auto
  finally show ?thesis .
qed

lemma overlapsWith_mem:
  "c \<in> set (overlapsWith a bs) \<Longrightarrow>
     eventA c = a \<and> eventB c \<in> set bs \<and> overlaps (eventA c, eventB c)
     \<and> overlapStart c = max (checkIn (eventA c)) (checkIn (eventB c))
     \<and> overlapEnd c = min (checkOut (eventA c)) (checkOut (eventB c))"
  by (induction bs) (auto simp: overlaps_def split: if_splits)

lemma unitConflicts_mem:
  "c \<in> set (unitConflicts ys) \<Longrightarrow>
     eventA c \<in> set ys \<and> eventB c \<in> set ys \<and> overlaps (eventA c, eventB c)
     \<and> overlapStart c = max (checkIn (eventA c)) (checkIn (eventB c))
     \<and> overlapEnd c = min (checkOut (eventA c)) (checkOut (eventB c))"
proof (induction ys)
  case Nil
  then show ?case by simp
next
  case (Cons a ys)
  from Cons.prems have "c \<in> set (overlapsWith a ys) \<or> c \<in> set (unitConflicts ys)"
    by auto
  then show ?case
  proof
    assume "c \<in> set (overlapsWith a ys)"
    from overlapsWith_mem[OF this] show ?thesis by auto
  next
    assume "c \<in> set (unitConflicts ys)"
    from Cons.IH[OF this] show ?thesis by simp
  qed
qed

lemma detectConflicts_mem:
  assumes "c \<in> set (detectConflicts events)"
  shows "eventA c \<in> set events \<and> eventB c \<in> set events
     \<and> unitId (eventA c) = unitId (eventB c)
     \<and> checkIn (eventA c) < checkOut (eventB c) \<and> checkIn (eventB c) < checkOut (eventA c)
     \<and> overlapStart c = max (checkIn (eventA c)) (checkIn (eventB c))
     \<and> overlapEnd c = min (checkOut (eventA c)) (checkOut (eventB c))"
proof -
  from assms obtain u es where mem: "(u, es) \<in> set (eventsByUnit events)"
    and c: "c \<in> set (unitConflicts (sort_key checkIn es))"
    by (auto simp: detectConflicts_def)
  from eventsByUnit_entries[OF mem] have es: "es = unitEventsOf u events" .
  from unitConflicts_mem[OF c] have
    "eventA c \<in> set es" "eventB c \<in> set es" "overlaps (eventA c, eventB c)"
    "overlapStart c = max (checkIn (eventA c)) (checkIn (eventB c))"
    "overlapEnd c = min (checkOut (eventA c)) (checkOut (eventB c))"
    by simp_all
  then show ?thesis unfolding es by (simp add: unitEventsOf_def overlaps_def)
qed

text \<open>
  C1.  For every list of calendar events, the pairs \<open>detectConflicts\<close> reports are,
  counted with multiplicity and read as unordered pairs, exactly the pairs of positions
  \<open>i < j\<close> of the input whose events are on the same unit and overlap in the half-open
  sense \<open>startA < endB\<close> and \<open>startB < endA\<close>, each with the sub-interval from the
  later start to the earlier end.  Hence every reported pair is on one unit and overlaps
  strictly: events on different units, and events of which one ends at the instant the
  other begins, are never reported.
\<close>

theorem detectConflicts_exactly_overlapping_pairs:
  "image_mset unordered (mset (detectConflicts events)) =
     image_mset intersection
       (filter_mset (\<lambda>p. sameUnit p \<and> overlaps p) (mset (pairs events)))
   \<and> (\<forall>c \<in> set (detectConflicts events).
         unitId (eventA c) = unitId (eventB c)
         \<and> checkIn (eventA c) < checkOut (eventB c)
         \<and> checkIn (eventB c) < checkOut (eventA c)
         \<and> overlapStart c = max (checkIn (eventA c)) (checkIn (eventB c))
         \<and> overlapEnd c = min (checkOut (eventA c)) (checkOut (eventB c)))"
  using detectConflicts_mset[of events] detectConflicts_mem[of _ events] by blast

theorem detectConflicts_exactly_overlapping_pairs_witness:
  "detectConflicts [evD, evC, evB, evA]
     = [\<lparr>eventA = evA, eventB = evB, overlapStart = 2, overlapEnd = 3\<rparr>]
   \<and> image_mset unordered (mset (detectConflicts [evD, evC, evB, evA]))
     = image_mset intersection
         (filter_mset (\<lambda>p. sameUnit p \<and> overlaps p) (mset (pairs [evD, evC, evB, evA])))
   \<and> unitId evA = unitId evB \<and> checkIn evA < checkOut evB \<and> checkIn evB < checkOut evA
   \<and> checkOut evB = checkIn evC \<and> unitId evD \<noteq> unitId evA"
proof -
  have run: "detectConflicts [evD, evC, evB, evA]
     = [\<lparr>eventA = evA, eventB = evB, overlapStart = 2, overlapEnd = 3\<rparr>]"
    by (simp add: detectConflicts_def eventsByUnit_def groupStep_def
          evA_def evB_def evC_def evD_def)
  have mem: "\<lparr>eventA = evA, eventB = evB, overlapStart = 2, overlapEnd = 3\<rparr>
      \<in> set (detectConflicts [evD, evC, evB, evA])"
    by (simp add: run)
  from detectConflicts_exactly_overlapping_pairs[of "[evD, evC, evB, evA]"] mem
  have "unitId evA = unitId evB \<and> checkIn evA < checkOut evB \<and> checkIn evB < checkOut evA"
    by fastforce
  moreover have "checkOut evB = checkIn evC \<and> unitId evD \<noteq> unitId evA"
    by (simp add: evB_def evC_def evD_def evA_def)
  ultimately show ?thesis
    using run detectConflicts_exactly_overlapping_pairs[of "[evD, evC, evB, evA]"]
    by simp
qed

section \<open>Properties of the reconciler\<close>

subsection \<open>Evaluating the sample runs\<close>

lemma showNat_0: "showNat 0 = ''0''"
  by (simp add: showNat.simps digitChar_def)

lemma showNat_1: "showNat (Suc 0) = ''1''"
  by (simp add: showNat.simps digitChar_def)

lemma fetchICal_envOf:
  "fetchICal (envOf feed) url =
     Inr (case collectEvents (\<lambda>n. ''uuid-'' @ showNat n) 0 feed of
            Inl t \<Rightarrow> [] | Inr events \<Rightarrow> events)"
  by (simp add: fetchICal_def envOf_def parseICalData_def)

lemma fetchICal_feedA: "fetchICal (envOf feedA) url = Inr eventsA"
  by (simp add: fetchICal_envOf feedA_def entry_def eventsA_def truthy_def orElse_def orNull_def)

lemma afterFirstRun_reservations:
  "reservations afterFirstRun =
    [\<lparr>rId = ''res-0'', rUnitId = ''unit1'', rChannel = ''airbnb'', rGuestName = ''Anna'',
       rCheckIn = 10, rCheckOut = 20, rStatus = confirmed, rExternalId = Some ''airbnb-u1'',
       rTotalAmount = None\<rparr>,
     \<lparr>rId = ''res-1'', rUnitId = ''unit1'', rChannel = ''airbnb'', rGuestName = ''Ben'',
       rCheckIn = 20, rCheckOut = 30, rStatus = confirmed, rExternalId = Some ''airbnb-u2'',
       rTotalAmount = None\<rparr>]"
  by (simp add: afterFirstRun_def syncCalendar_def fetchICal_feedA eventsA_def processEvent_def
        Let_def reservation_findFirst_def reservation_create_def syncLog_create_def
        sampleMapping_def sampleDb_def truthy_def orElse_def showNat_0 showNat_1)

lemma eventsA_identical: "list_all (storedIdentical afterFirstRun sampleMapping) eventsA"
  by (simp add: storedIdentical_def reservation_findFirst_def afterFirstRun_reservations
        eventsA_def sampleMapping_def)

subsection \<open>An unchanged feed writes nothing\<close>

lemma processEvent_identical:
  "storedIdentical db mapping ev \<Longrightarrow> processEvent mapping unit (c, u, db) ev = (c, u, db)"
  by (auto simp: storedIdentical_def processEvent_def Let_def split: option.splits)

lemma foldl_processEvent_identical:
  "list_all (storedIdentical db mapping) events \<Longrightarrow>
     foldl (processEvent mapping unit) (c, u, db) events = (c, u, db)"
  by (induction events) (simp_all add: processEvent_identical)

text \<open>
  C2.  When a run fetches a feed every event of which is identical to the stored
  reservation it maps to, as on a second run over the same content, the run writes no
  reservation (the sync log apart, it leaves the database as it was) and returns
  \<open>eventsCreated = 0\<close> and \<open>eventsUpdated = 0\<close>.
\<close>

theorem syncCalendar_unchanged_feed:
  assumes "fetchICal env (orElse (cmICalUrl mapping) []) = Inr events"
      and "list_all (storedIdentical db mapping) events"
  shows "reservations (snd (syncCalendar env mapping unit db)) = reservations db
       \<and> snd (syncCalendar env mapping unit db)
           = db\<lparr>syncLogs := syncLogs (snd (syncCalendar env mapping unit db))\<rparr>
       \<and> eventsCreated (fst (syncCalendar env mapping unit db)) = 0
       \<and> eventsUpdated (fst (syncCalendar env mapping unit db)) = 0"
  using assms
  by (simp add: syncCalendar_def foldl_processEvent_identical syncLog_create_def)

theorem syncCalendar_unchanged_feed_witness:
  "fetchICal (envOf feedA) (orElse (cmICalUrl sampleMapping) []) = Inr eventsA
   \<and> list_all (storedIdentical afterFirstRun sampleMapping) eventsA
   \<and> length (reservations afterFirstRun) = 2
   \<and> reservations (snd (syncCalendar (envOf feedA) sampleMapping ''unit1'' afterFirstRun))
       = reservations afterFirstRun
   \<and> eventsCreated (fst (syncCalendar (envOf feedA) sampleMapping ''unit1'' afterFirstRun)) = 0
   \<and> eventsUpdated (fst (syncCalendar (envOf feedA) sampleMapping ''unit1'' afterFirstRun)) = 0"
  using syncCalendar_unchanged_feed[OF fetchICal_feedA eventsA_identical, of "''unit1''"]
        fetchICal_feedA eventsA_identical
  by (simp add: afterFirstRun_reservations)

subsection \<open>The lookup before every create\<close>

lemma findFirst_None_keyedRows:
  "reservation_findFirst db ch ext = None \<longleftrightarrow> keyedRows ch ext (reservations db) = []"
  by (auto simp: reservation_findFirst_def keyedRows_def find_None_iff filter_empty_conv)

lemma keyedRows_update:
  "keyedRows ch ext (reservations (reservation_update i ci co g db))
     = map (\<lambda>r. if rId r = i then r\<lparr>rCheckIn := ci, rCheckOut := co, rGuestName := g\<rparr> else r)
           (keyedRows ch ext (reservations db))"
  unfolding reservation_update_def keyedRows_def
  by (induction "reservations db" arbitrary: db) (auto simp: filter_map comp_def intro: filter_cong)

lemma processEvent_keyCount:
  "length (keyedRows ch ext (reservations (snd (snd (processEvent mapping unit (c, u, db) ev)))))
     \<le> max 1 (length (keyedRows ch ext (reservations db)))"
proof (cases "reservation_findFirst db (cmChannel mapping) (cmChannel mapping @ ''-'' @ uid ev)")
  case None
  then have "keyedRows (cmChannel mapping) (cmChannel mapping @ ''-'' @ uid ev) (reservations db) = []"
    by (simp add: findFirst_None_keyedRows)
  with None show ?thesis
    by (auto simp: processEvent_def Let_def reservation_create_def keyedRows_def)
next
  case (Some existing)
  then show ?thesis
    by (simp add: processEvent_def Let_def keyedRows_update)
qed

lemma foldl_processEvent_keyCount:
  "length (keyedRows ch ext
      (reservations (snd (snd (foldl (processEvent mapping unit) (c, u, db) events)))))
     \<le> max 1 (length (keyedRows ch ext (reservations db)))"
proof (induction events arbitrary: c u db)
  case Nil
  then show ?case by simp
next
  case (Cons ev events)
  obtain c' u' db' where step: "processEvent mapping unit (c, u, db) ev = (c', u', db')"
    by (cases "processEvent mapping unit (c, u, db) ev") auto
  have "length (keyedRows ch ext (reservations db'))
      \<le> max 1 (length (keyedRows ch ext (reservations db)))"
    using processEvent_keyCount[of ch ext mapping unit c u db ev] step by simp
  moreover have "length (keyedRows ch ext
        (reservations (snd (snd (foldl (processEvent mapping unit) (c', u', db') events)))))
     \<le> max 1 (length (keyedRows ch ext (reservations db')))"
    by (rule Cons.IH)
  ultimately show ?case using step by simp
qed

lemma syncCalendar_keyCount:
  "length (keyedRows ch ext (reservations (snd (syncCalendar env mapping unit db))))
     \<le> max 1 (length (keyedRows ch ext (reservations db)))"
proof (cases "truthy (cmICalUrl mapping)")
  case False
  then show ?thesis by (simp add: syncCalendar_def)
next
  case True
  show ?thesis
  proof (cases "fetchICal env (orElse (cmICalUrl mapping) [])")
    case (Inl t)
    with True show ?thesis by (simp add: syncCalendar_def syncLog_create_def)
  next
    case (Inr events)
    obtain c u db1 where run: "foldl (processEvent mapping unit) (0, 0, db) events = (c, u, db1)"
      by (cases "foldl (processEvent mapping unit) (0, 0, db) events") auto
    with foldl_processEvent_keyCount[of ch ext mapping unit 0 0 db events]
    have "length (keyedRows ch ext (reservations db1))
        \<le> max 1 (length (keyedRows ch ext (reservations db)))"
      by simp
    with True Inr run show ?thesis by (simp add: syncCalendar_def syncLog_create_def)
  qed
qed

lemma syncRuns_keyCount:
  "length (keyedRows ch ext (reservations (syncRuns runs db)))
     \<le> max 1 (length (keyedRows ch ext (reservations db)))"
proof (induction runs arbitrary: db)
  case Nil
  then show ?case by simp
next
  case (Cons run runs)
  obtain env mapping unit where run: "run = (env, mapping, unit)" by (cases run) auto
  have "length (keyedRows ch ext
          (reservations (syncRuns runs (snd (syncCalendar env mapping unit db)))))
      \<le> max 1 (length (keyedRows ch ext (reservations (snd (syncCalendar env mapping unit db)))))"
    by (rule Cons.IH)
  also have "\<dots> \<le> max 1 (max 1 (length (keyedRows ch ext (reservations db))))"
    using syncCalendar_keyCount[of ch ext env mapping unit db] by simp
  finally show ?case by (simp add: run)
qed

lemma uniqueKeys_iff:
  "uniqueKeys rs \<longleftrightarrow> (\<forall>ch ext. length (keyedRows ch ext rs) \<le> 1)"
proof (induction rs)
  case Nil
  then show ?case by (simp add: uniqueKeys_def keyedRows_def)
next
  case (Cons r rs)
  show ?case
  proof (cases "rExternalId r")
    case None
    with Cons show ?thesis by (simp add: uniqueKeys_def keyedRows_def)
  next
    case (Some x)
    have inset: "(rChannel r, Some x) \<in> rowKey ` {r \<in> set rs. rExternalId r \<noteq> None}
        \<longleftrightarrow> keyedRows (rChannel r) x rs \<noteq> []"
      by (auto simp: keyedRows_def rowKey_def filter_empty_conv image_iff)
    show ?thesis
    proof
      assume u: "uniqueKeys (r # rs)"
      with Some have "uniqueKeys rs" and nin: "keyedRows (rChannel r) x rs = []"
        using inset by (auto simp: uniqueKeys_def rowKey_def)
      with Cons have tl: "\<forall>ch ext. length (keyedRows ch ext rs) \<le> 1" by simp
      show "\<forall>ch ext. length (keyedRows ch ext (r # rs)) \<le> 1"
      proof (intro allI)
        fix ch ext
        show "length (keyedRows ch ext (r # rs)) \<le> 1"
        proof (cases "rChannel r = ch \<and> x = ext")
          case True
          with nin Some show ?thesis by (simp add: keyedRows_def)
        next
          case False
          with tl Some show ?thesis by (auto simp: keyedRows_def)
        qed
      qed
    next
      assume a: "\<forall>ch ext. length (keyedRows ch ext (r # rs)) \<le> 1"
      have "\<forall>ch ext. length (keyedRows ch ext rs) \<le> 1"
      proof (intro allI)
        fix ch ext
        have "length (keyedRows ch ext rs) \<le> length (keyedRows ch ext (r # rs))"
          by (simp add: keyedRows_def)
        with a show "length (keyedRows ch ext rs) \<le> 1" using le_trans by blast
      qed
      with Cons have "uniqueKeys rs" by simp
      moreover from a have "length (keyedRows (rChannel r) x (r # rs)) \<le> 1" by blast
      with Some have "keyedRows (rChannel r) x rs = []" by (simp add: keyedRows_def)
      ultimately show "uniqueKeys (r # rs)"
        using Some inset by (auto simp: uniqueKeys_def rowKey_def)
    qed
  qed
qed

lemma syncRuns_uniqueKeys:
  assumes "uniqueKeys (reservations db)"
  shows "uniqueKeys (reservations (syncRuns runs db))"
  unfolding uniqueKeys_iff
proof (intro allI)
  fix ch ext
  from assms have "length (keyedRows ch ext (reservations db)) \<le> 1"
    by (simp add: uniqueKeys_iff)
  with syncRuns_keyCount[of ch ext runs db]
  show "length (keyedRows ch ext (reservations (syncRuns runs db))) \<le> 1" by simp
qed

lemma processEvent_rowKeys:
  "map rowKey (reservations (snd (snd (processEvent mapping unit (c, u, db) ev))))
     = map rowKey (reservations db)
       @ (if reservation_findFirst db (cmChannel mapping) (cmChannel mapping @ ''-'' @ uid ev) = None
          then [(cmChannel mapping, Some (cmChannel mapping @ ''-'' @ uid ev))] else [])"
  by (cases "reservation_findFirst db (cmChannel mapping) (cmChannel mapping @ ''-'' @ uid ev)")
     (auto simp: processEvent_def Let_def reservation_update_def reservation_create_def
        rowKey_def)

text \<open>
  C3.  For every fetched event the reconciler looks a reservation up under the channel
  and the external id \<open><channel>-<uid>\<close>, and adds a row, under exactly that key, only
  when the lookup finds none; otherwise the keys of the table stay as they are (the row
  found is updated or left alone).  Consequently, over any number of runs, no key ever
  gets a second reservation: the number of rows under a key never exceeds one unless it
  did before the runs, and a table whose keys are unique keeps them unique.
\<close>

theorem reconciler_never_duplicates_a_key:
  "map rowKey (reservations (snd (snd (processEvent mapping unit (c, u, db) ev))))
     = map rowKey (reservations db)
       @ (if reservation_findFirst db (cmChannel mapping) (cmChannel mapping @ ''-'' @ uid ev) = None
          then [(cmChannel mapping, Some (cmChannel mapping @ ''-'' @ uid ev))] else [])
   \<and> length (keyedRows ch ext (reservations (syncRuns runs db)))
       \<le> max 1 (length (keyedRows ch ext (reservations db)))
   \<and> (uniqueKeys (reservations db) \<longrightarrow> uniqueKeys (reservations (syncRuns runs db)))"
  using processEvent_rowKeys[of mapping unit c u db ev] syncRuns_keyCount[of ch ext runs db]
        syncRuns_uniqueKeys[of db runs]
  by blast

theorem reconciler_never_duplicates_a_key_witness:
  "uniqueKeys (reservations sampleDb)
   \<and> uniqueKeys (reservations (syncRuns threeRuns sampleDb))
   \<and> length (keyedRows ''airbnb'' ''airbnb-u1'' (reservations (syncRuns threeRuns sampleDb))) \<le> 1
   \<and> map rowKey (reservations (syncRuns threeRuns sampleDb))
       = [(''airbnb'', Some ''airbnb-u1''), (''airbnb'', Some ''airbnb-u2'')]"
proof -
  have start: "uniqueKeys (reservations sampleDb)"
    by (simp add: sampleDb_def uniqueKeys_def)
  have rows: "map rowKey (reservations (syncRuns threeRuns sampleDb))
       = [(''airbnb'', Some ''airbnb-u1''), (''airbnb'', Some ''airbnb-u2'')]"
    by (simp add: threeRuns_def syncCalendar_def fetchICal_envOf feedA_def feedB_def entry_def
          processEvent_def Let_def reservation_findFirst_def reservation_create_def
          reservation_update_def syncLog_create_def sampleMapping_def sampleDb_def
          truthy_def orElse_def orNull_def rowKey_def)
  from reconciler_never_duplicates_a_key
         [of sampleMapping "''unit1''" 0 0 sampleDb "hd eventsA" "''airbnb''" "''airbnb-u1''" threeRuns]
       start
  have "uniqueKeys (reservations (syncRuns threeRuns sampleDb))
      \<and> length (keyedRows ''airbnb'' ''airbnb-u1'' (reservations (syncRuns threeRuns sampleDb))) \<le> 1"
    by (simp add: sampleDb_def keyedRows_def)
  with start rows show ?thesis by simp
qed

subsection \<open>What a step leaves in the table\<close>

lemma find_map_inv:
  "find P xs = Some x \<Longrightarrow> (\<And>y. P (f y) = P y) \<Longrightarrow> find P (map f xs) = Some (f x)"
  by (induction xs) (auto split: if_splits)

lemma find_append_new:
  "find P xs = None \<Longrightarrow> P x \<Longrightarrow> find P (xs @ [x]) = Some x"
  by (induction xs) (auto split: if_splits)

lemma findFirst_after_update:
  assumes "reservation_findFirst db ch ext = Some existing"
  shows "reservation_findFirst (reservation_update (rId existing) ci co g db) ch ext
           = Some (existing\<lparr>rCheckIn := ci, rCheckOut := co, rGuestName := g\<rparr>)"
proof -
  let ?f = "\<lambda>r. if rId r = rId existing
        then r\<lparr>rCheckIn := ci, rCheckOut := co, rGuestName := g\<rparr> else r"
  from assms have "find (\<lambda>r. rChannel r = ch \<and> rExternalId r = Some ext)
          (map ?f (reservations db)) = Some (?f existing)"
    unfolding reservation_findFirst_def by (rule find_map_inv) simp
  then show ?thesis
    by (simp add: reservation_findFirst_def reservation_update_def)
qed

lemma findFirst_after_create:
  assumes "reservation_findFirst db ch ext = None"
  shows "reservation_findFirst (snd (reservation_create unit ch (Some ext) g ci co st amount db)) ch ext
           = Some \<lparr>rId = idGen db (idCounter db), rUnitId = unit, rChannel = ch, rGuestName = g,
                   rCheckIn = ci, rCheckOut = co, rStatus = st, rExternalId = Some ext,
                   rTotalAmount = amount\<rparr>"
proof -
  from assms have "find (\<lambda>r. rChannel r = ch \<and> rExternalId r = Some ext)
       (reservations db @
          [\<lparr>rId = idGen db (idCounter db), rUnitId = unit, rChannel = ch, rGuestName = g,
            rCheckIn = ci, rCheckOut = co, rStatus = st, rExternalId = Some ext,
            rTotalAmount = amount\<rparr>])
      = Some \<lparr>rId = idGen db (idCounter db), rUnitId = unit, rChannel = ch, rGuestName = g,
            rCheckIn = ci, rCheckOut = co, rStatus = st, rExternalId = Some ext,
            rTotalAmount = amount\<rparr>"
    unfolding reservation_findFirst_def by (rule find_append_new) simp
  then show ?thesis
    by (simp add: reservation_findFirst_def reservation_create_def Let_def)
qed

lemma processEvent_storedDates:
  "storedDates (snd (snd (processEvent mapping unit (c, u, db) ev))) mapping ev"
proof (cases "reservation_findFirst db (cmChannel mapping) (cmChannel mapping @ ''-'' @ uid ev)")
  case None
  from findFirst_after_create[OF None] None show ?thesis
    by (simp add: processEvent_def Let_def storedDates_def)
next
  case (Some existing)
  from findFirst_after_update[OF Some] Some show ?thesis
    by (simp add: processEvent_def Let_def storedDates_def)
qed

lemma afterFirstRun_finds_Anna:
  "reservation_findFirst afterFirstRun ''airbnb'' ''airbnb-u1'' = Some resAnna"
  by (simp add: reservation_findFirst_def afterFirstRun_reservations resAnna_def)

subsection \<open>What the parser returns\<close>





text \<open>
  One entry whose \<open>endDate\<close> getter throws: the parser returns no event at all, and the
  two entries read before it are lost.
\<close>

lemma one_bad_entry_loses_all:
  "parseICalData (envOf feedA) ''BEGIN:VCALENDAR'' = eventsA
   \<and> parseICalData (envOf feedBroken) ''BEGIN:VCALENDAR'' = []"
  by (simp add: parseICalData_def envOf_def feedBroken_def feedA_def entry_def eventsA_def
        truthy_def orElse_def orNull_def)

subsection \<open>A document that does not parse\<close>

text \<open>
  C5, as the claim states it, fails: a document that does not parse is answered with a
  successful run.
\<close>

theorem unparsable_document_reported_success:
  "icalParse envUnparsable ''<html>Sign in</html>'' = None
   \<and> success (fst (syncCalendar envUnparsable sampleMapping ''unit1'' sampleDb))
   \<and> error (fst (syncCalendar envUnparsable sampleMapping ''unit1'' sampleDb)) = None"
  by (simp add: syncCalendar_def fetchICal_def parseICalData_def envUnparsable_def
        sampleMapping_def truthy_def orElse_def syncLog_create_def)

text \<open>
  C5, amended.  If the fetched document as a whole cannot be parsed as iCalendar, the
  parser returns no events and the run is reported as a success: \<open>syncCalendar\<close> returns
  \<open>success = true\<close> with zero events found, created and updated and no error, writes no
  reservation and appends a sync log with status \<open>success\<close>; it throws nothing to its
  caller.
\<close>

theorem unparsable_document_is_success:
  assumes "truthy (cmICalUrl mapping)"
      and "httpFetch env (orElse (cmICalUrl mapping) []) = Response status (Inr text)"
      and "200 \<le> status" and "status \<le> 299"
      and "icalParse env text = None"
  shows "syncCalendar env mapping unit db =
          (\<lparr>success = True, eventsFound = 0, eventsCreated = 0, eventsUpdated = 0,
             added = 0, updated = 0, error = None\<rparr>,
           db\<lparr>syncLogs := syncLogs db @
              [\<lparr>slChannelMappingId = cmId mapping, slStatus = ''success'',
                slEventsFound = Some 0, slEventsCreated = Some 0, slEventsUpdated = Some 0,
                slError = None, slCompletedAt = clock db\<rparr>]\<rparr>)"
  using assms
  by (simp add: syncCalendar_def fetchICal_def parseICalData_def syncLog_create_def)

theorem unparsable_document_is_success_witness:
  "truthy (cmICalUrl sampleMapping)
   \<and> httpFetch envUnparsable (orElse (cmICalUrl sampleMapping) [])
       = Response 200 (Inr ''<html>Sign in</html>'')
   \<and> icalParse envUnparsable ''<html>Sign in</html>'' = None
   \<and> syncCalendar envUnparsable sampleMapping ''unit1'' sampleDb =
          (\<lparr>success = True, eventsFound = 0, eventsCreated = 0, eventsUpdated = 0,
             added = 0, updated = 0, error = None\<rparr>,
           sampleDb\<lparr>syncLogs := syncLogs sampleDb @
              [\<lparr>slChannelMappingId = cmId sampleMapping, slStatus = ''success'',
                slEventsFound = Some 0, slEventsCreated = Some 0, slEventsUpdated = Some 0,
                slError = None, slCompletedAt = clock sampleDb\<rparr>]\<rparr>)"
proof -
  have h1: "truthy (cmICalUrl sampleMapping)"
    by (simp add: sampleMapping_def truthy_def)
  have h2: "httpFetch envUnparsable (orElse (cmICalUrl sampleMapping) [])
       = Response 200 (Inr ''<html>Sign in</html>'')"
    by (simp add: envUnparsable_def)
  have h3: "icalParse envUnparsable ''<html>Sign in</html>'' = None"
    by (simp add: envUnparsable_def)
  from unparsable_document_is_success[OF h1 h2 _ _ h3, of "''unit1''" sampleDb] h1 h2 h3
  show ?thesis by simp
qed

subsection \<open>An event whose reservation exists\<close>

text \<open>
  C6, as the claim states it, fails: an event whose dates are those of the stored
  reservation and whose title differs causes no update.
\<close>

theorem title_change_alone_not_updated:
  "reservation_findFirst afterFirstRun (cmChannel sampleMapping)
       (cmChannel sampleMapping @ ''-'' @ uid evRenamed) = Some resAnna
   \<and> rGuestName resAnna \<noteq> summary evRenamed
   \<and> processEvent sampleMapping ''unit1'' (0, 0, afterFirstRun) evRenamed = (0, 0, afterFirstRun)
   \<and> eventsUpdated (fst (syncCalendar (envOf feedRenamed) sampleMapping ''unit1'' afterFirstRun)) = 0
   \<and> reservations (snd (syncCalendar (envOf feedRenamed) sampleMapping ''unit1'' afterFirstRun))
       = reservations afterFirstRun"
  by (simp add: syncCalendar_def fetchICal_envOf processEvent_def Let_def
        afterFirstRun_finds_Anna syncLog_create_def feedRenamed_def entry_def evRenamed_def
        resAnna_def
        sampleMapping_def truthy_def orElse_def orNull_def)

text \<open>
  C6, amended.  For every fetched event whose dedup key finds an existing reservation:
  if the check-in or the check-out of the stored record differs from the start or end of
  the event, the reconciler updates that record in place, setting check-in, check-out
  and guest name from the event (the guest name is \<open>Guest\<close> for an empty title), so that
  the lookup then finds the record with these three columns changed and no other, and it
  increments the updated count; if both dates are equal it writes nothing and counts
  nothing, whatever the title.
\<close>

theorem processEvent_updates_on_date_change:
  assumes "reservation_findFirst db (cmChannel mapping) (cmChannel mapping @ ''-'' @ uid ev)
             = Some existing"
  shows "processEvent mapping unit (c, u, db) ev =
          (if rCheckIn existing \<noteq> dtstart ev \<or> rCheckOut existing \<noteq> dtend ev
           then (c, Suc u, reservation_update (rId existing) (dtstart ev) (dtend ev)
                             (if summary ev = [] then ''Guest'' else summary ev) db)
           else (c, u, db))
       \<and> reservation_findFirst
            (reservation_update (rId existing) (dtstart ev) (dtend ev)
               (if summary ev = [] then ''Guest'' else summary ev) db)
            (cmChannel mapping) (cmChannel mapping @ ''-'' @ uid ev)
          = Some (existing\<lparr>rCheckIn := dtstart ev, rCheckOut := dtend ev,
                    rGuestName := (if summary ev = [] then ''Guest'' else summary ev)\<rparr>)"
  using assms findFirst_after_update[OF assms]
  by (simp add: processEvent_def Let_def orElse_def)

theorem processEvent_updates_on_date_change_witness:
  "reservation_findFirst afterFirstRun (cmChannel sampleMapping)
       (cmChannel sampleMapping @ ''-'' @ uid evMoved) = Some resAnna
   \<and> processEvent sampleMapping ''unit1'' (0, 0, afterFirstRun) evMoved
       = (0, 1, reservation_update ''res-0'' 12 22 ''Anna'' afterFirstRun)
   \<and> reservation_findFirst (reservation_update ''res-0'' 12 22 ''Anna'' afterFirstRun)
        ''airbnb'' ''airbnb-u1''
       = Some (resAnna\<lparr>rCheckIn := 12, rCheckOut := 22\<rparr>)"
proof -
  have h: "reservation_findFirst afterFirstRun (cmChannel sampleMapping)
       (cmChannel sampleMapping @ ''-'' @ uid evMoved) = Some resAnna"
    by (simp add: afterFirstRun_finds_Anna sampleMapping_def evMoved_def)
  from processEvent_updates_on_date_change[OF h, of "''unit1''" 0 0] h
  show ?thesis
    by (simp add: resAnna_def evMoved_def sampleMapping_def)
qed

subsection \<open>An event without a reservation\<close>






subsection \<open>An entry that ends before it starts\<close>

text \<open>
  C8, as the claim states it, fails: a fetched feed entry whose start is after its end is
  neither rejected nor skipped; a reservation is created from it as it is.
\<close>

theorem backwards_entry_persisted:
  "feedBackwards = [entry (Some ''u7'') (Some ''Zed'') (Some 50) (Some 40),
                    entry (Some ''u8'') (Some ''Yan'') (Some 60) None]
   \<and> reservations sampleDb = []
   \<and> map (\<lambda>r. (rCheckIn r, rCheckOut r))
       (reservations (snd (syncCalendar (envOf feedBackwards) sampleMapping ''unit1'' sampleDb)))
      = [(50, 40)]"
  by (simp add: syncCalendar_def fetchICal_envOf processEvent_def Let_def
        reservation_findFirst_def reservation_create_def syncLog_create_def sampleMapping_def
        sampleDb_def truthy_def orElse_def orNull_def feedBackwards_def entry_def)

text \<open>
  C8, amended.  The reconciler does not reject or skip a fetched event because its start
  instant is not strictly before its end instant: after it has processed a fetched event,
  whatever the order of the two instants, the reservation found under the dedup key of
  the event has the start of the event as check-in and its end as check-out.  So a
  reservation persisted by the reconciler has its check-in strictly before its check-out
  only if the fetched event had its start strictly before its end.
\<close>

theorem reconciler_stores_dates_unchecked:
  "storedDates (snd (snd (processEvent mapping unit (c, u, db) ev))) mapping ev
   \<and> (\<not> dtstart ev < dtend ev \<longrightarrow>
        storedBackwards (snd (snd (processEvent mapping unit (c, u, db) ev))) mapping ev)"
  using processEvent_storedDates[of mapping unit c u db ev]
  by (auto simp: storedDates_def storedBackwards_def split: option.splits)

theorem reconciler_stores_dates_unchecked_witness:
  "\<not> dtstart evBackwards < dtend evBackwards
   \<and> storedDates (snd (snd (processEvent sampleMapping ''unit1'' (0, 0, sampleDb) evBackwards)))
        sampleMapping evBackwards
   \<and> storedBackwards (snd (snd (processEvent sampleMapping ''unit1'' (0, 0, sampleDb) evBackwards)))
        sampleMapping evBackwards
   \<and> map (\<lambda>r. (rCheckIn r, rCheckOut r))
       (reservations (snd (snd (processEvent sampleMapping ''unit1'' (0, 0, sampleDb) evBackwards))))
      = [(50, 40)]"
proof -
  have h: "\<not> dtstart evBackwards < dtend evBackwards"
    by (simp add: evBackwards_def)
  have rows: "map (\<lambda>r. (rCheckIn r, rCheckOut r))
       (reservations (snd (snd (processEvent sampleMapping ''unit1'' (0, 0, sampleDb) evBackwards))))
      = [(50, 40)]"
    by (simp add: processEvent_def Let_def reservation_findFirst_def reservation_create_def
          sampleDb_def sampleMapping_def evBackwards_def)
  from reconciler_stores_dates_unchecked[of sampleMapping "''unit1''" 0 0 sampleDb evBackwards] h rows
  show ?thesis by simp
qed

definition twoCalls :: "nat System" where
  "twoCalls = \<lparr>sysSched = idle, sysWorld = 0, sysCalls = [Entering, Entering]\<rparr>"


section \<open>Properties of the scheduler and of the manual sync\<close>

subsection \<open>A failed fetch\<close>

lemma showNat_404: "showNat 404 = ''404''"
  by (simp add: showNat.simps digitChar_def)

lemma syncCalendar_fetch_failure:
  assumes "truthy (cmICalUrl mapping)"
      and "fetchICal env (orElse (cmICalUrl mapping) []) = Inl t"
  shows "syncCalendar env mapping unit db =
          (\<lparr>success = False, eventsFound = 0, eventsCreated = 0, eventsUpdated = 0,
             added = 0, updated = 0, error = Some (errorMessageOf t)\<rparr>,
           db\<lparr>syncLogs := syncLogs db @
              [\<lparr>slChannelMappingId = cmId mapping, slStatus = ''failed'',
                slEventsFound = None, slEventsCreated = None, slEventsUpdated = None,
                slError = Some (errorMessageOf t), slCompletedAt = clock db\<rparr>]\<rparr>)"
  using assms by (simp add: syncCalendar_def syncLog_create_def)

text \<open>
  On the scheduler's path, a run whose fetch fails writes the clock into \<open>lastSyncAt\<close>
  together with the error: the result of \<open>syncCalendar\<close> carries the failure as a value,
  so the update after the call is the one taken.
\<close>

lemma syncMapping_fetch_failure:
  assumes "mwpUnits m = unit # us"
      and "truthy (cmICalUrl (mwpMapping m))"
      and "fetchICal env (orElse (cmICalUrl (mwpMapping m)) []) = Inl t"
  shows "snd (syncMapping (dbOps env) m db) =
           channelMapping_update (cmId (mwpMapping m)) (Some (clock db))
             (orNull (Some (errorMessageOf t)))
             (snd (syncCalendar env (mwpMapping m) (uId unit) db))"
  using assms
  by (simp add: syncMapping_def dbOps_def syncCalendar_fetch_failure)

text \<open>
  C4.  The code at a failed fetch: the connection \<open>m1\<close> has never been synced, the feed
  answers 404.  Both the scheduler and the manual sync record the error and append a
  failed sync log, and both set \<open>lastSyncAt\<close> to the time of the run.
\<close>

theorem fetch_failure_advances_lastSyncAt:
  "cmLastSyncAt sampleMapping = None
   \<and> channelMappings sampleDb = [sampleMapping]
   \<and> map srError (fst (runSync (dbOps env404) idle sampleDb))
       = [Some ''Failed to fetch iCal: 404'']
   \<and> channelMappings (snd (snd (runSync (dbOps env404) idle sampleDb)))
       = [sampleMapping\<lparr>cmLastSyncAt := Some 1000,
                         cmLastSyncError := Some ''Failed to fetch iCal: 404''\<rparr>]
   \<and> map slStatus (syncLogs (snd (snd (runSync (dbOps env404) idle sampleDb)))) = [''failed'']
   \<and> channelMappings (snd (syncChannel env404 ''owner'' ''m1'' sampleDb))
       = [sampleMapping\<lparr>cmLastSyncAt := Some 1000,
                         cmLastSyncError := Some ''Failed to fetch iCal: 404''\<rparr>]
   \<and> map slStatus (syncLogs (snd (syncChannel env404 ''owner'' ''m1'' sampleDb))) = [''failed'']"
  by (simp add: runSync_def dbOps_def idle_def withProperty_def syncMapping_def
        syncChannel_def ownsProperty_def channelMapping_update_def syncCalendar_def
        fetchICal_def env404_def showNat_404 syncLog_create_def sampleMapping_def sampleDb_def
        truthy_def orElse_def orNull_def errorMessageOf_def Let_def)

subsection \<open>Single flight\<close>

text \<open>A call taken alone, step after step, gets through the loop as \<open>syncLoop\<close> says.\<close>

lemma reach_refl: "\<exists>n. (f ^^ n) a = a"
  by (rule exI[of _ 0]) simp

lemma reach_step: "\<exists>n. (f ^^ n) (f a) = b \<Longrightarrow> \<exists>n. (f ^^ n) a = b"
proof -
  assume "\<exists>n. (f ^^ n) (f a) = b"
  then obtain n where "(f ^^ n) (f a) = b" ..
  then have "(f ^^ Suc n) a = b" by (simp add: funpow_swap1)
  then show ?thesis ..
qed

lemma reach_trans:
  assumes "\<exists>n. (f ^^ n) a = b" and "\<exists>n. (f ^^ n) b = c"
  shows "\<exists>n. (f ^^ n) a = c"
proof -
  from assms obtain n m where "(f ^^ n) a = b" "(f ^^ m) b = c" by blast
  then have "(f ^^ (m + n)) a = c" by (simp add: funpow_add)
  then show ?thesis ..
qed

lemma mapping_reaches:
  "\<exists>n. (taskStep ops ^^ n) (sched, w, Looping (m # ms) results) =
     (case syncMapping ops m w of
        (Inl t, w') \<Rightarrow> (sched, w', Leaving results)
      | (Inr r, w') \<Rightarrow> (sched, w', Looping ms (results @ [r])))"
proof (cases "mwpUnits m")
  case Nil
  show ?thesis
    by (rule reach_step) (simp add: Nil syncMapping_def reach_refl)
next
  case (Cons unit us)
  obtain a w1 where sync: "adapterSync ops (mwpMapping m) (uId unit) w = (a, w1)"
    by (cases "adapterSync ops (mwpMapping m) (uId unit) w") auto
  show ?thesis
  proof (cases a)
    case (Inl t)
    obtain b w2 where upd: "updateMapping ops (cmId (mwpMapping m)) None (Some (errorMessageOf t)) w1 = (b, w2)"
      by (cases "updateMapping ops (cmId (mwpMapping m)) None (Some (errorMessageOf t)) w1") auto
    show ?thesis
      apply (rule reach_step)
      apply (simp add: Cons sync Inl)
      apply (rule reach_step)
      apply (cases b)
       apply (simp_all add: Cons sync Inl upd syncMapping_def reach_refl)
      done
  next
    case (Inr res)
    obtain b w2 where upd: "updateMapping ops (cmId (mwpMapping m)) (Some (newDate ops w1)) (orNull (error res)) w1 = (b, w2)"
      by (cases "updateMapping ops (cmId (mwpMapping m)) (Some (newDate ops w1)) (orNull (error res)) w1") auto
    show ?thesis
    proof (cases b)
      case (Inl t)
      obtain d w3 where upd2: "updateMapping ops (cmId (mwpMapping m)) None (Some (errorMessageOf t)) w2 = (d, w3)"
        by (cases "updateMapping ops (cmId (mwpMapping m)) None (Some (errorMessageOf t)) w2") auto
      show ?thesis
        apply (rule reach_step)
        apply (simp add: Cons sync Inr)
        apply (rule reach_step)
        apply (simp add: upd Inl)
        apply (rule reach_step)
        apply (cases d)
         apply (simp_all add: Cons sync Inr Inl upd upd2 syncMapping_def reach_refl)
        done
    next
      case (Inr u)
      show ?thesis
        apply (rule reach_step)
        apply (simp add: Cons sync \<open>a = Inr res\<close>)
        apply (rule reach_step)
        apply (simp add: Cons sync \<open>a = Inr res\<close> upd Inr syncMapping_def reach_refl)
        done
    qed
  qed
qed

lemma loop_reaches:
  "\<exists>n. (taskStep ops ^^ n) (sched, w, Looping ms results) =
     (sched, snd (snd (syncLoop ops ms results w)), Leaving (fst (snd (syncLoop ops ms results w))))"
proof (induction ms arbitrary: results w)
  case Nil
  show ?case by (rule reach_step) (simp add: reach_refl)
next
  case (Cons m ms)
  obtain a w' where sm: "syncMapping ops m w = (a, w')"
    by (cases "syncMapping ops m w") auto
  show ?case
  proof (cases a)
    case (Inl t)
    from mapping_reaches[of ops sched w m ms results] show ?thesis
      by (simp add: sm Inl)
  next
    case (Inr r)
    from mapping_reaches[of ops sched w m ms results]
    have "\<exists>n. (taskStep ops ^^ n) (sched, w, Looping (m # ms) results)
            = (sched, w', Looping ms (results @ [r]))"
      by (simp add: sm Inr)
    from reach_trans[OF this Cons.IH[of w' "results @ [r]"]] show ?thesis
      by (simp add: sm Inr)
  qed
qed

lemma runSync_reaches:
  assumes "\<not> isRunning sched"
  shows "\<exists>n. (taskStep ops ^^ n) (sched, w, Entering) =
           (fst (snd (runSync ops sched w)), snd (snd (runSync ops sched w)),
            Returned (fst (runSync ops sched w)))"
proof -
  let ?sched1 = "sched\<lparr>isRunning := True, lastRunAt := Some (newDate ops w)\<rparr>"
  obtain a w1 where q: "findManyMappings ops w = (a, w1)"
    by (cases "findManyMappings ops w") auto
  show ?thesis
  proof (cases a)
    case (Inl t)
    show ?thesis
      apply (rule reach_step)
      apply (simp add: assms)
      apply (rule reach_step)
      apply (simp add: q Inl)
      apply (rule reach_step)
      apply (simp add: runSync_def assms q Inl reach_refl)
      done
  next
    case (Inr ms)
    have "\<exists>n. (taskStep ops ^^ n) (?sched1, w1, Looping ms []) =
        (fst (snd (runSync ops sched w)), snd (snd (runSync ops sched w)),
            Returned (fst (runSync ops sched w)))"
      apply (rule reach_trans[OF loop_reaches])
      apply (rule reach_step)
      apply (simp add: runSync_def assms q Inr Let_def reach_refl split: prod.splits)
      done
    then show ?thesis
      apply -
      apply (rule reach_step)
      apply (simp add: assms)
      apply (rule reach_step)
      apply (simp add: q Inr)
      done
  qed
qed

lemma filter_update_count:
  "i < length ts \<Longrightarrow>
     length (filter P (ts[i := x])) + (if P (ts ! i) then 1 else 0)
       = length (filter P ts) + (if P x then 1 else 0)"
proof (induction ts arbitrary: i)
  case Nil
  then show ?case by simp
next
  case (Cons t ts)
  then show ?case by (cases i) auto
qed

lemma taskStep_flag:
  assumes "taskStep ops (sched, w, t) = (sched', w', t')"
  shows "(\<not> inBatch t \<and> \<not> inBatch t' \<and> sched' = sched \<and> w' = w)
       \<or> (\<not> inBatch t \<and> inBatch t' \<and> \<not> isRunning sched \<and> isRunning sched')
       \<or> (inBatch t \<and> inBatch t' \<and> isRunning sched' = isRunning sched)
       \<or> (inBatch t \<and> \<not> inBatch t' \<and> \<not> isRunning sched')"
proof (cases t)
  case Entering
  with assms show ?thesis by (auto split: if_splits)
next
  case Querying
  with assms show ?thesis by (auto split: prod.splits sum.splits)
next
  case (Looping ms r)
  with assms show ?thesis
    by (cases ms) (auto split: prod.splits sum.splits list.splits)
next
  case (Updating m res syncAt ms r)
  with assms show ?thesis by (auto split: prod.splits sum.splits)
next
  case (Catching m err ms r)
  with assms show ?thesis by (auto split: prod.splits sum.splits)
next
  case (Leaving r)
  with assms show ?thesis by auto
next
  case (Returned r)
  with assms show ?thesis by auto
qed

lemma inBatch_count: "i < length ts \<Longrightarrow> inBatch (ts ! i) \<Longrightarrow> 0 < length (filter inBatch ts)"
  by (metis filter_empty_conv length_greater_0_conv nth_mem)

lemma sysStep_singleFlight:
  assumes "singleFlight s"
  shows "singleFlight (sysStep ops s i)"
proof (cases "i < length (sysCalls s)")
  case False
  with assms show ?thesis by (simp add: sysStep_def)
next
  case True
  obtain sched' w' t' where st: "taskStep ops (sysSched s, sysWorld s, sysCalls s ! i) = (sched', w', t')"
    by (cases "taskStep ops (sysSched s, sysWorld s, sysCalls s ! i)") auto
  from filter_update_count[OF True, of inBatch t']
  have cnt: "length (filter inBatch ((sysCalls s)[i := t'])) + (if inBatch (sysCalls s ! i) then 1 else 0)
       = length (filter inBatch (sysCalls s)) + (if inBatch t' then 1 else 0)" .
  have pos: "inBatch (sysCalls s ! i) \<Longrightarrow> 0 < length (filter inBatch (sysCalls s))"
    using True by (rule inBatch_count)
  from taskStep_flag[OF st] cnt pos assms True st show ?thesis
    by (auto simp: singleFlight_def sysStep_def split: if_splits)
qed

lemma foldl_singleFlight:
  "singleFlight s \<Longrightarrow> singleFlight (foldl (sysStep ops) s schedule)"
  by (induction schedule arbitrary: s) (simp_all add: sysStep_singleFlight)

lemma entering_while_running:
  assumes "singleFlight s" and "i < length (sysCalls s)" and "sysCalls s ! i = Entering"
      and "list_ex inBatch (sysCalls s)"
  shows "sysStep ops s i = s\<lparr>sysCalls := (sysCalls s)[i := Returned (lastResults (sysSched s))]\<rparr>"
proof -
  from assms(4) have "0 < length (filter inBatch (sysCalls s))"
    by (simp add: list_ex_iff filter_empty_conv)
  with assms(1) have "isRunning (sysSched s)"
    by (simp add: singleFlight_def split: if_splits)
  with assms(2,3) show ?thesis by (simp add: sysStep_def)
qed

lemma idle_without_batch:
  assumes "singleFlight s" and "\<not> list_ex inBatch (sysCalls s)"
  shows "\<not> isRunning (sysSched s)"
proof -
  from assms(2) have "length (filter inBatch (sysCalls s)) = 0"
    by (simp add: list_ex_iff filter_empty_conv)
  with assms(1) show ?thesis by (simp add: singleFlight_def split: if_splits)
qed

text \<open>
  C9.  Take any number of calls of \<open>runSync\<close> on one scheduler object, interleaved in
  any way, from a state that is single-flight (for one, the scheduler at rest with no
  call made yet), and whatever the collaborators do, also when their calls reject.  In
  every state reached, at most one call is running a batch, and \<open>isRunning\<close> is set
  exactly when one is.  A call made while a batch is running returns in one step the
  cached list of the previous run and changes neither the scheduler object nor the state
  of the collaborators: no fetch, no write.  When no call is running a batch,
  \<open>isRunning\<close> is false.  As a function from call to return, \<open>runSync\<close> on a running
  scheduler returns the cached list and changes nothing; on a scheduler at rest the call,
  taken step by step, returns after finitely many steps with the result of \<open>runSync\<close>,
  which leaves the scheduler at rest with the returned list cached.
\<close>

theorem runSync_single_flight_and_idle:
  assumes "singleFlight s0"
  shows "singleFlight (foldl (sysStep ops) s0 schedule)
       \<and> length (filter inBatch (sysCalls (foldl (sysStep ops) s0 schedule))) \<le> 1
       \<and> (list_ex inBatch (sysCalls (foldl (sysStep ops) s0 schedule))
            \<longrightarrow> isRunning (sysSched (foldl (sysStep ops) s0 schedule)))
       \<and> (i < length (sysCalls (foldl (sysStep ops) s0 schedule))
            \<and> sysCalls (foldl (sysStep ops) s0 schedule) ! i = Entering
            \<and> list_ex inBatch (sysCalls (foldl (sysStep ops) s0 schedule))
          \<longrightarrow> sysStep ops (foldl (sysStep ops) s0 schedule) i
                = (foldl (sysStep ops) s0 schedule)
                    \<lparr>sysCalls := (sysCalls (foldl (sysStep ops) s0 schedule))
                       [i := Returned (lastResults (sysSched (foldl (sysStep ops) s0 schedule)))]\<rparr>)
       \<and> (\<not> list_ex inBatch (sysCalls (foldl (sysStep ops) s0 schedule))
            \<longrightarrow> \<not> isRunning (sysSched (foldl (sysStep ops) s0 schedule)))
       \<and> (isRunning sched \<longrightarrow> runSync ops sched w = (lastResults sched, sched, w))
       \<and> (\<not> isRunning sched \<longrightarrow>
            (\<exists>n. (taskStep ops ^^ n) (sched, w, Entering) =
                   (fst (snd (runSync ops sched w)), snd (snd (runSync ops sched w)),
                    Returned (fst (runSync ops sched w))))
            \<and> \<not> isRunning (fst (snd (runSync ops sched w)))
            \<and> lastResults (fst (snd (runSync ops sched w))) = fst (runSync ops sched w))"
proof -
  let ?s = "foldl (sysStep ops) s0 schedule"
  have inv: "singleFlight ?s" using assms by (rule foldl_singleFlight)
  then have le: "length (filter inBatch (sysCalls ?s)) \<le> 1"
    by (simp add: singleFlight_def split: if_splits)
  have up: "list_ex inBatch (sysCalls ?s) \<longrightarrow> isRunning (sysSched ?s)"
    using idle_without_batch[OF inv] inv
    by (auto simp: singleFlight_def list_ex_iff filter_empty_conv split: if_splits)
  have noop: "i < length (sysCalls ?s) \<and> sysCalls ?s ! i = Entering \<and> list_ex inBatch (sysCalls ?s)
      \<longrightarrow> sysStep ops ?s i = ?s\<lparr>sysCalls := (sysCalls ?s)[i := Returned (lastResults (sysSched ?s))]\<rparr>"
    using entering_while_running[OF inv] by blast
  have down: "\<not> list_ex inBatch (sysCalls ?s) \<longrightarrow> \<not> isRunning (sysSched ?s)"
    using idle_without_batch[OF inv] by blast
  have guard: "isRunning sched \<longrightarrow> runSync ops sched w = (lastResults sched, sched, w)"
    by (simp add: runSync_def)
  have fin: "\<not> isRunning sched \<longrightarrow>
            (\<exists>n. (taskStep ops ^^ n) (sched, w, Entering) =
                   (fst (snd (runSync ops sched w)), snd (snd (runSync ops sched w)),
                    Returned (fst (runSync ops sched w))))
            \<and> \<not> isRunning (fst (snd (runSync ops sched w)))
            \<and> lastResults (fst (snd (runSync ops sched w))) = fst (runSync ops sched w)"
    using runSync_reaches[of sched ops w]
    by (auto simp: runSync_def Let_def split: prod.splits sum.splits)
  from inv le up noop down guard fin show ?thesis by blast
qed

lemma brokenOps_steps:
  "foldl (sysStep brokenOps) twoCalls [0, 0]
     = \<lparr>sysSched = idle\<lparr>isRunning := True, lastRunAt := Some 0\<rparr>, sysWorld = 1,
        sysCalls = [Looping [\<lparr>mwpMapping = sampleMapping, mwpPropertyName = ''Beach House'',
                    mwpUnits = [\<lparr>uId = ''unit1'', uPropertyId = ''p1''\<rparr>]\<rparr>] [], Entering]\<rparr>"
  by (simp add: sysStep_def twoCalls_def brokenOps_def idle_def)

lemma brokenOps_all_steps:
  "foldl (sysStep brokenOps) twoCalls [0, 0, Suc 0, 0, 0, 0]
     = \<lparr>sysSched = idle\<lparr>lastRunAt := Some 0\<rparr>, sysWorld = 3,
        sysCalls = [Returned [], Returned []]\<rparr>"
  by (simp add: sysStep_def twoCalls_def brokenOps_def idle_def)

theorem runSync_single_flight_and_idle_witness:
  "singleFlight twoCalls
   \<and> sysCalls (foldl (sysStep brokenOps) twoCalls [0, 0]) ! Suc 0 = Entering
   \<and> list_ex inBatch (sysCalls (foldl (sysStep brokenOps) twoCalls [0, 0]))
   \<and> isRunning (sysSched (foldl (sysStep brokenOps) twoCalls [0, 0]))
   \<and> sysWorld (foldl (sysStep brokenOps) twoCalls [0, 0]) = 1
   \<and> sysWorld (sysStep brokenOps (foldl (sysStep brokenOps) twoCalls [0, 0]) (Suc 0)) = 1
   \<and> sysSched (sysStep brokenOps (foldl (sysStep brokenOps) twoCalls [0, 0]) (Suc 0))
       = sysSched (foldl (sysStep brokenOps) twoCalls [0, 0])
   \<and> sysCalls (sysStep brokenOps (foldl (sysStep brokenOps) twoCalls [0, 0]) (Suc 0)) ! Suc 0 = Returned []
   \<and> \<not> list_ex inBatch (sysCalls (foldl (sysStep brokenOps) twoCalls [0, 0, Suc 0, 0, 0, 0]))
   \<and> \<not> isRunning (sysSched (foldl (sysStep brokenOps) twoCalls [0, 0, Suc 0, 0, 0, 0]))
   \<and> sysWorld (foldl (sysStep brokenOps) twoCalls [0, 0, Suc 0, 0, 0, 0]) = 3
   \<and> \<not> isRunning idle
   \<and> runSync brokenOps idle 0 = ([], idle\<lparr>lastRunAt := Some 0\<rparr>, 3)
   \<and> (taskStep brokenOps ^^ 5) (idle, 0, Entering) = (idle\<lparr>lastRunAt := Some 0\<rparr>, 3, Returned [])
   \<and> isRunning (idle\<lparr>isRunning := True, lastRunAt := Some 0\<rparr>)
   \<and> runSync brokenOps (idle\<lparr>isRunning := True, lastRunAt := Some 0\<rparr>) 1
       = ([], idle\<lparr>isRunning := True, lastRunAt := Some 0\<rparr>, 1)"
proof -
  have init: "singleFlight twoCalls"
    by (simp add: singleFlight_def twoCalls_def idle_def)
  have i: "\<not> isRunning idle" by (simp add: idle_def)
  have r: "isRunning (idle\<lparr>isRunning := True, lastRunAt := Some 0\<rparr>)" by simp
  have mid: "Suc 0 < length (sysCalls (foldl (sysStep brokenOps) twoCalls [0, 0]))
      \<and> sysCalls (foldl (sysStep brokenOps) twoCalls [0, 0]) ! Suc 0 = Entering
      \<and> list_ex inBatch (sysCalls (foldl (sysStep brokenOps) twoCalls [0, 0]))"
    by (simp add: brokenOps_steps del: foldl_Cons)
  have fin: "\<not> list_ex inBatch (sysCalls (foldl (sysStep brokenOps) twoCalls [0, 0, Suc 0, 0, 0, 0]))"
    by (simp add: brokenOps_all_steps del: foldl_Cons)
  have run: "runSync brokenOps idle 0 = ([], idle\<lparr>lastRunAt := Some 0\<rparr>, 3)"
    by (simp add: runSync_def brokenOps_def idle_def syncMapping_def Let_def)
  have five: "(taskStep brokenOps ^^ 5) (idle, 0, Entering) = (idle\<lparr>lastRunAt := Some 0\<rparr>, 3, Returned [])"
    by (simp add: numeral_eq_Suc funpow_swap1 brokenOps_def idle_def)
  from runSync_single_flight_and_idle[OF init, of brokenOps "[0, 0]" "Suc 0"
         "idle\<lparr>isRunning := True, lastRunAt := Some 0\<rparr>" 1] mid r
  have a: "isRunning (sysSched (foldl (sysStep brokenOps) twoCalls [0, 0]))
      \<and> sysStep brokenOps (foldl (sysStep brokenOps) twoCalls [0, 0]) (Suc 0)
          = (foldl (sysStep brokenOps) twoCalls [0, 0])
              \<lparr>sysCalls := (sysCalls (foldl (sysStep brokenOps) twoCalls [0, 0]))
                 [Suc 0 := Returned (lastResults (sysSched (foldl (sysStep brokenOps) twoCalls [0, 0])))]\<rparr>
      \<and> runSync brokenOps (idle\<lparr>isRunning := True, lastRunAt := Some 0\<rparr>) 1
       = ([], idle\<lparr>isRunning := True, lastRunAt := Some 0\<rparr>, 1)"
    by (simp add: idle_def del: foldl_Cons)
  from runSync_single_flight_and_idle[OF init, of brokenOps "[0, 0, Suc 0, 0, 0, 0]" 0 idle 0] fin i
  have b: "\<not> isRunning (sysSched (foldl (sysStep brokenOps) twoCalls [0, 0, Suc 0, 0, 0, 0]))"
    by (simp del: foldl_Cons)
  have w1: "sysWorld (foldl (sysStep brokenOps) twoCalls [0, 0]) = 1"
    by (simp add: brokenOps_steps del: foldl_Cons)
  have res: "lastResults (sysSched (foldl (sysStep brokenOps) twoCalls [0, 0])) = []"
    by (simp add: brokenOps_steps idle_def del: foldl_Cons)
  have w3: "sysWorld (foldl (sysStep brokenOps) twoCalls [0, 0, Suc 0, 0, 0, 0]) = 3"
    by (simp add: brokenOps_all_steps del: foldl_Cons)
  from a have c: "sysWorld (sysStep brokenOps (foldl (sysStep brokenOps) twoCalls [0, 0]) (Suc 0)) = 1
     \<and> sysSched (sysStep brokenOps (foldl (sysStep brokenOps) twoCalls [0, 0]) (Suc 0))
       = sysSched (foldl (sysStep brokenOps) twoCalls [0, 0])
     \<and> sysCalls (sysStep brokenOps (foldl (sysStep brokenOps) twoCalls [0, 0]) (Suc 0)) ! Suc 0 = Returned []"
    using w1 res mid by (simp del: foldl_Cons)
  from init i r mid fin run five a b w1 w3 c show ?thesis by blast
qed

section \<open>Properties of manual reservations\<close>

lemma ownsUnit_find:
  "ownsUnit db userId unit \<longleftrightarrow>
     find (\<lambda>u. uId u = unit \<and> ownsProperty db userId (uPropertyId u)) (units db) \<noteq> None"
  by (auto simp: ownsUnit_def ownsProperty_def find_None_iff list_ex_iff)

lemma createReservation_cases:
  "createReservation dflt userId input db =
     (if \<not> ownsUnit db userId (inUnitId input) then (Inl (Error ''Unit not found''), db)
      else if list_ex (conflictsWith input) (reservations db)
      then (Inl (Error ''Dates conflict with existing reservation''), db)
      else (Inr (newReservation dflt input db),
            db\<lparr>reservations := reservations db @ [newReservation dflt input db],
               idCounter := Suc (idCounter db)\<rparr>))"
proof -
  have conf: "length (filter (\<lambda>r. rUnitId r = inUnitId input
                            \<and> (rStatus r = confirmed \<or> rStatus r = pending)
                            \<and> rCheckIn r < inCheckOut input
                            \<and> rCheckOut r > inCheckIn input) (reservations db)) > 0
        \<longleftrightarrow> list_ex (conflictsWith input) (reservations db)"
    by (auto simp: conflictsWith_def list_ex_iff filter_empty_conv)
  show ?thesis
  proof (cases "find (\<lambda>u. uId u = inUnitId input \<and> ownsProperty db userId (uPropertyId u))
                  (units db)")
    case None
    then show ?thesis by (simp add: createReservation_def ownsUnit_find)
  next
    case (Some unit)
    then have "ownsUnit db userId (inUnitId input)" by (simp add: ownsUnit_find)
    with Some conf show ?thesis
      by (simp add: createReservation_def Let_def reservation_create_def newReservation_def)
  qed
qed

text \<open>
  C10, as the claim states it, fails: for a unit that does not belong to the caller the
  error is \<open>Unit not found\<close>, also when a confirmed reservation overlaps the request.
\<close>

theorem createReservation_foreign_unit:
  "list_ex (conflictsWith (request 15 25)) (reservations bookedDb)
   \<and> createReservation confirmed ''stranger'' (request 15 25) bookedDb
       = (Inl (Error ''Unit not found''), bookedDb)"
  by (simp add: createReservation_cases ownsUnit_def bookedDb_def sampleDb_def request_def
        conflictsWith_def resAnna_def)

text \<open>
  C10, amended.  For a unit that belongs to the calling user, manual reservation creation
  refuses double-bookings against reservations but not blocks: \<open>createReservation\<close> throws
  \<open>Dates conflict with existing reservation\<close> and persists nothing whenever some
  confirmed or pending reservation on the same unit overlaps the requested interval in
  the half-open sense; otherwise it appends the requested reservation.  Availability
  blocks are not consulted: the outcome is the same whatever the blocks are, so a request
  that overlaps only a block is created without error.
\<close>

theorem createReservation_refuses_overlap:
  assumes "ownsUnit db userId (inUnitId input)"
  shows "(list_ex (conflictsWith input) (reservations db) \<longrightarrow>
            createReservation dflt userId input db
              = (Inl (Error ''Dates conflict with existing reservation''), db))
       \<and> (\<not> list_ex (conflictsWith input) (reservations db) \<longrightarrow>
            createReservation dflt userId input db
              = (Inr (newReservation dflt input db),
                 db\<lparr>reservations := reservations db @ [newReservation dflt input db],
                    idCounter := Suc (idCounter db)\<rparr>))
       \<and> fst (createReservation dflt userId input (db\<lparr>availabilityBlocks := bs\<rparr>))
           = fst (createReservation dflt userId input db)"
  using assms
  by (simp add: createReservation_cases ownsUnit_def newReservation_def)

theorem createReservation_refuses_overlap_witness:
  "ownsUnit bookedDb ''owner'' (inUnitId (request 15 25))
   \<and> list_ex (conflictsWith (request 15 25)) (reservations bookedDb)
   \<and> createReservation confirmed ''owner'' (request 15 25) bookedDb
       = (Inl (Error ''Dates conflict with existing reservation''), bookedDb)
   \<and> \<not> list_ex (conflictsWith (request 55 58)) (reservations bookedDb)
   \<and> map bStartDate (availabilityBlocks bookedDb) = [50]
   \<and> fst (createReservation confirmed ''owner'' (request 55 58) bookedDb)
       = Inr (newReservation confirmed (request 55 58) bookedDb)"
proof -
  have own: "ownsUnit bookedDb ''owner'' (inUnitId (request 15 25))"
    by (simp add: ownsUnit_def bookedDb_def sampleDb_def request_def)
  have own': "ownsUnit bookedDb ''owner'' (inUnitId (request 55 58))"
    by (simp add: ownsUnit_def bookedDb_def sampleDb_def request_def)
  have c1: "list_ex (conflictsWith (request 15 25)) (reservations bookedDb)"
    by (simp add: bookedDb_def request_def conflictsWith_def resAnna_def)
  have c2: "\<not> list_ex (conflictsWith (request 55 58)) (reservations bookedDb)"
    by (simp add: bookedDb_def request_def conflictsWith_def resAnna_def)
  have b: "map bStartDate (availabilityBlocks bookedDb) = [50]"
    by (simp add: bookedDb_def)
  from createReservation_refuses_overlap[OF own, of confirmed] c1
  have "createReservation confirmed ''owner'' (request 15 25) bookedDb
       = (Inl (Error ''Dates conflict with existing reservation''), bookedDb)"
    by simp
  moreover from createReservation_refuses_overlap[OF own', of confirmed] c2
  have "fst (createReservation confirmed ''owner'' (request 55 58) bookedDb)
       = Inr (newReservation confirmed (request 55 58) bookedDb)"
    by simp
  ultimately show ?thesis using own c1 c2 b by simp
qed

section \<open>A second run over the same feed\<close>

text \<open>
  The condition of C2 is what a first run establishes: when the entries of a feed carry
  pairwise distinct uids and the primary keys of the table are in order, a run leaves,
  for every event of the feed, the reservation under its key with the dates of the event;
  so a second run over the same events writes no reservation and counts nothing.
\<close>

lemma processEvent_storedDates_same:
  "storedDates db mapping ev \<Longrightarrow> processEvent mapping unit (c, u, db) ev = (c, u, db)"
  by (auto simp: storedDates_def processEvent_def Let_def split: option.splits)

lemma foldl_processEvent_storedDates:
  "list_all (storedDates db mapping) events \<Longrightarrow>
     foldl (processEvent mapping unit) (c, u, db) events = (c, u, db)"
  by (induction events) (simp_all add: processEvent_storedDates_same)

lemma reservation_update_ids:
  "map rId (reservations (reservation_update i ci co g db)) = map rId (reservations db)"
  unfolding reservation_update_def by (induction "reservations db" arbitrary: db) auto

lemma freshIds_update: "freshIds (reservation_update i ci co g db) = freshIds db"
proof -
  have "idGen (reservation_update i ci co g db) = idGen db"
       "idCounter (reservation_update i ci co g db) = idCounter db"
    by (simp_all add: reservation_update_def)
  then show ?thesis
    unfolding freshIds_def by (simp only: reservation_update_ids)
qed

lemma freshIds_create:
  assumes "freshIds db"
  shows "freshIds (snd (reservation_create unit ch ext g ci co st amount db))"
proof -
  from assms have inj: "inj (idGen db)" and d: "distinct (map rId (reservations db))"
    and fr: "\<forall>n \<ge> idCounter db. idGen db n \<notin> set (map rId (reservations db))"
    by (simp_all add: freshIds_def)
  from fr have new: "idGen db (idCounter db) \<notin> set (map rId (reservations db))" by simp
  have later: "\<forall>n \<ge> Suc (idCounter db). idGen db n \<noteq> idGen db (idCounter db)"
  proof (intro allI impI)
    fix n assume "Suc (idCounter db) \<le> n"
    then have "n \<noteq> idCounter db" by simp
    with inj show "idGen db n \<noteq> idGen db (idCounter db)" by (simp add: inj_eq)
  qed
  from fr have fr': "\<forall>n \<ge> Suc (idCounter db). idGen db n \<notin> set (map rId (reservations db))"
    by simp
  show ?thesis
    using inj d new later fr'
    by (simp add: freshIds_def reservation_create_def Let_def)
qed

lemma processEvent_freshIds:
  assumes "freshIds db"
  shows "freshIds (snd (snd (processEvent mapping unit (c, u, db) ev)))"
  using assms
  by (cases "reservation_findFirst db (cmChannel mapping) (cmChannel mapping @ ''-'' @ uid ev)")
     (simp_all add: processEvent_def Let_def freshIds_update freshIds_create)

lemma find_append_found: "find P xs = Some x \<Longrightarrow> find P (xs @ ys) = Some x"
  by (induction xs) (auto split: if_splits)

lemma find_map_untouched:
  "find P xs = Some x \<Longrightarrow> (\<And>y. P (f y) = P y) \<Longrightarrow> f x = x \<Longrightarrow> find P (map f xs) = Some x"
  by (induction xs) (auto split: if_splits)

lemma processEvent_keeps_storedDates:
  assumes fresh: "freshIds db"
      and other: "uid ev' \<noteq> uid ev"
      and stored: "storedDates db mapping ev"
  shows "storedDates (snd (snd (processEvent mapping unit (c, u, db) ev'))) mapping ev"
proof -
  let ?ch = "cmChannel mapping"
  from stored obtain r where r: "reservation_findFirst db ?ch (?ch @ ''-'' @ uid ev) = Some r"
    and dates: "rCheckIn r = dtstart ev" "rCheckOut r = dtend ev"
    by (auto simp: storedDates_def split: option.splits)
  show ?thesis
  proof (cases "reservation_findFirst db ?ch (?ch @ ''-'' @ uid ev')")
    case None
    from r have "reservation_findFirst
        (snd (reservation_create unit ?ch (Some (?ch @ ''-'' @ uid ev'))
               (orElse (Some (summary ev')) ''Guest'') (dtstart ev') (dtend ev') confirmed None db))
        ?ch (?ch @ ''-'' @ uid ev) = Some r"
      by (simp add: reservation_findFirst_def reservation_create_def Let_def find_append_found)
    with None dates show ?thesis
      by (simp add: processEvent_def Let_def storedDates_def)
  next
    case (Some existing)
    show ?thesis
    proof (cases "rCheckIn existing \<noteq> dtstart ev' \<or> rCheckOut existing \<noteq> dtend ev'")
      case False
      with Some stored show ?thesis by (simp add: processEvent_def Let_def)
    next
      case True
      from Some have ex: "existing \<in> set (reservations db)"
          "rExternalId existing = Some (?ch @ ''-'' @ uid ev')"
        by (auto simp: reservation_findFirst_def find_Some_iff)
      from r have rin: "r \<in> set (reservations db)" "rExternalId r = Some (?ch @ ''-'' @ uid ev)"
        by (auto simp: reservation_findFirst_def find_Some_iff)
      from ex rin other have "r \<noteq> existing" by auto
      with ex rin fresh have ne: "rId r \<noteq> rId existing"
        by (auto simp: freshIds_def distinct_map inj_on_def)
      let ?f = "\<lambda>x. if rId x = rId existing
          then x\<lparr>rCheckIn := dtstart ev', rCheckOut := dtend ev',
                 rGuestName := orElse (Some (summary ev')) ''Guest''\<rparr> else x"
      from r have "find (\<lambda>x. rChannel x = ?ch \<and> rExternalId x = Some (?ch @ ''-'' @ uid ev))
            (map ?f (reservations db)) = Some r"
        unfolding reservation_findFirst_def
        by (rule find_map_untouched) (use ne in auto)
      with True Some dates show ?thesis
        by (simp add: processEvent_def Let_def storedDates_def reservation_findFirst_def
              reservation_update_def)
    qed
  qed
qed

lemma foldl_processEvent_all_stored:
  assumes "freshIds db" and "distinct (map uid events)"
  shows "list_all (storedDates (snd (snd (foldl (processEvent mapping unit) (c, u, db) events)))
                     mapping) events
       \<and> freshIds (snd (snd (foldl (processEvent mapping unit) (c, u, db) events)))"
  using assms
proof (induction events arbitrary: c u db rule: rev_induct)
  case Nil
  then show ?case by simp
next
  case (snoc ev events)
  obtain c1 u1 db1 where run: "foldl (processEvent mapping unit) (c, u, db) events = (c1, u1, db1)"
    by (cases "foldl (processEvent mapping unit) (c, u, db) events") auto
  from snoc.prems have d: "distinct (map uid events)" and nin: "uid ev \<notin> uid ` set events"
    by auto
  from snoc.IH[OF snoc.prems(1) d, of c u] run
  have ih: "list_all (storedDates db1 mapping) events" and fr: "freshIds db1" by simp_all
  let ?db2 = "snd (snd (processEvent mapping unit (c1, u1, db1) ev))"
  have "list_all (storedDates ?db2 mapping) events"
    unfolding list_all_iff
  proof
    fix e assume e: "e \<in> set events"
    with nin have "uid ev \<noteq> uid e" by auto
    moreover from ih e have "storedDates db1 mapping e" by (simp add: list_all_iff)
    ultimately show "storedDates ?db2 mapping e"
      using fr by (intro processEvent_keeps_storedDates)
  qed
  moreover have "storedDates ?db2 mapping ev" by (rule processEvent_storedDates)
  moreover have "freshIds ?db2" using fr by (rule processEvent_freshIds)
  ultimately show ?case using run by simp
qed

lemma storedDates_syncLog:
  "storedDates (syncLog_create l db) mapping ev = storedDates db mapping ev"
  by (simp add: storedDates_def syncLog_create_def reservation_findFirst_def)

lemma second_run_writes_nothing:
  assumes "freshIds db"
      and "fetchICal env (orElse (cmICalUrl mapping) []) = Inr events"
      and "distinct (map uid events)"
  shows "reservations (snd (syncCalendar env mapping unit (snd (syncCalendar env mapping unit db))))
           = reservations (snd (syncCalendar env mapping unit db))
       \<and> eventsCreated (fst (syncCalendar env mapping unit
                                 (snd (syncCalendar env mapping unit db)))) = 0
       \<and> eventsUpdated (fst (syncCalendar env mapping unit
                                 (snd (syncCalendar env mapping unit db)))) = 0"
proof (cases "truthy (cmICalUrl mapping)")
  case False
  then show ?thesis by (simp add: syncCalendar_def)
next
  case True
  obtain c1 u1 db1 where run: "foldl (processEvent mapping unit) (0, 0, db) events = (c1, u1, db1)"
    by (cases "foldl (processEvent mapping unit) (0, 0, db) events") auto
  from foldl_processEvent_all_stored[OF assms(1) assms(3), of mapping unit 0 0] run
  have st: "list_all (storedDates db1 mapping) events" by simp
  obtain l where first: "snd (syncCalendar env mapping unit db) = syncLog_create l db1"
    using True assms(2) run by (simp add: syncCalendar_def)
  from st have "list_all (storedDates (syncLog_create l db1) mapping) events"
    by (simp add: list_all_iff storedDates_syncLog)
  then have "foldl (processEvent mapping unit) (0, 0, syncLog_create l db1) events
      = (0, 0, syncLog_create l db1)"
    by (rule foldl_processEvent_storedDates)
  with True assms(2) first show ?thesis
    by (simp add: syncCalendar_def syncLog_create_def)
qed

section \<open>The pairs of positions\<close>

text \<open>\<open>pairs\<close> lists the elements at the positions \<open>i < j\<close>, row by row.\<close>

lemma map_upt_shift: "map g [Suc a..<Suc b] = map (\<lambda>j. g (Suc j)) [a..<b]"
proof -
  have "[Suc a..<Suc b] = map Suc [a..<b]" by (simp only: map_Suc_upt)
  then show ?thesis by (simp only: map_map comp_def)
qed

lemma pairs_positions:
  "pairs xs =
     concat (map (\<lambda>i. map (\<lambda>j. (xs ! i, xs ! j)) [Suc i..<length xs]) [0..<length xs])"
proof (induction xs)
  case Nil
  then show ?case by simp
next
  case (Cons x xs)
  let ?n = "length xs"
  let ?row = "\<lambda>i. map (\<lambda>j. ((x # xs) ! i, (x # xs) ! j)) [Suc i..<Suc ?n]"
  have first: "?row 0 = map (Pair x) xs"
  proof -
    have "?row 0 = map (\<lambda>j. (x, xs ! j)) [0..<?n]"
      by (simp only: map_upt_shift nth_Cons_0 nth_Cons_Suc)
    also have "\<dots> = map (Pair x) (map (nth xs) [0..<?n])"
      by (simp only: map_map comp_def)
    also have "\<dots> = map (Pair x) xs" by (simp only: map_nth)
    finally show ?thesis .
  qed
  have rows: "\<And>i. ?row (Suc i) = map (\<lambda>j. (xs ! i, xs ! j)) [Suc i..<?n]"
    by (simp only: map_upt_shift nth_Cons_Suc)
  have "concat (map ?row [0..<Suc ?n]) = ?row 0 @ concat (map ?row [Suc 0..<Suc ?n])"
    by (simp only: upt_conv_Cons[of 0 "Suc ?n"] zero_less_Suc list.map concat.simps)
  also have "map ?row [Suc 0..<Suc ?n] = map (\<lambda>i. ?row (Suc i)) [0..<?n]"
    by (rule map_upt_shift)
  also have "\<dots> = map (\<lambda>i. map (\<lambda>j. (xs ! i, xs ! j)) [Suc i..<?n]) [0..<?n]"
    by (simp only: rows)
  finally have "concat (map ?row [0..<Suc ?n]) = map (Pair x) xs @ pairs xs"
    by (simp only: first Cons.IH)
  moreover have "length (x # xs) = Suc ?n" by simp
  ultimately show ?case by (simp only: pairs.simps)
qed

end
